theory Spec2Isabelle
  imports Complex_Main "HOL-Library.AList" "HOL-Library.Log_Nat" "HOL-Library.Multiset"
begin

section \<open>Data model of the resource planner\<close>

text \<open>
  The planner (\<^verbatim>\<open>rp.py\<close>) reads a configuration of projects, holidays and settings.
  A calendar date is modelled by its proleptic Gregorian ordinal (Python's
  \<^verbatim>\<open>date.toordinal()\<close>: day 1 is 0001-01-01, a Monday), so that adding
  \<^verbatim>\<open>timedelta(days=1)\<close> is \<open>+ 1\<close>, up to the last date \<^verbatim>\<open>datetime\<close> can hold, and
  comparison of dates is comparison of ordinals. The time of day is 00:00 throughout.
  Python's integers are unbounded and are modelled by \<open>int\<close>. A dictionary read with
  \<^verbatim>\<open>.get(key, default)\<close> has an optional field; a field read with \<^verbatim>\<open>d[key]\<close> is a
  plain field, except \<open>priority\<close>, which the source reads both ways.
\<close>

type_synonym date = int

record project =
  name :: string
  priority :: "int option"
  start_date :: date
  end_date :: date
  required_days :: int

record settings =
  working_days_per_week :: "int option"
  spread_days_evenly :: "bool option"

record config =
  projects :: "project list"
  holidays :: "date list"
  settings :: settings

record shortfall =
  sf_name :: string
  assigned_days :: int
  sf_required_days :: int

text \<open>The exceptions the core can raise. \<open>ValueError\<close> carries the observed sorted
  priorities and the number of projects, as the message of the source does.\<close>

datatype error =
  ValueError "int list" nat
  | KeyError
  | ZeroDivisionError
  | IndexError
  | OverflowError

section \<open>Priority validation\<close>

text \<open>\<^verbatim>\<open>project.get("priority", 0)\<close>\<close>

definition get_priority :: "project \<Rightarrow> int" where
  "get_priority p = (case priority p of None \<Rightarrow> 0 | Some k \<Rightarrow> k)"

text \<open>\<^verbatim>\<open>validate_priorities\<close>: the sorted priorities are compared with
  \<^verbatim>\<open>list(range(1, len(projects) + 1))\<close>.\<close>

definition validate_priorities :: "project list \<Rightarrow> error + bool" where
  "validate_priorities ps =
     (let priorities = sort (map get_priority ps);
          expected_priorities = [1..int (length ps)]
      in if priorities \<noteq> expected_priorities
         then Inl (ValueError priorities (length ps))
         else Inr True)"

section \<open>Python primitives used by the calculator\<close>

text \<open>\<^verbatim>\<open>datetime.weekday()\<close>: Monday is 0, Sunday is 6; ordinal 1 is a Monday.\<close>

definition weekday :: "date \<Rightarrow> int" where
  "weekday d = (d + 6) mod 7"

text \<open>The last date \<^verbatim>\<open>datetime\<close> can hold is 9999-12-31, of ordinal 3652059; adding a
  \<^verbatim>\<open>timedelta\<close> that leads beyond it raises \<open>OverflowError\<close>.\<close>

definition max_ordinal :: date where
  "max_ordinal = 3652059"

text \<open>\<^verbatim>\<open>list(range(n))\<close>, empty for \<open>n \<le> 0\<close>.\<close>

definition py_range :: "int \<Rightarrow> int list" where
  "py_range n = [0..n - 1]"

text \<open>The slice \<^verbatim>\<open>xs[:k]\<close>: a negative bound counts from the end of the list, and a
  bound beyond either end is cut to that end.\<close>

definition py_slice_to :: "'a list \<Rightarrow> int \<Rightarrow> 'a list" where
  "py_slice_to xs k =
     (if k < 0 then take (nat (int (length xs) + k)) xs else take (nat k) xs)"

text \<open>The subscript \<^verbatim>\<open>xs[i]\<close>: a negative index counts from the end, and an index
  outside the list raises \<open>IndexError\<close>.\<close>

definition py_index :: "'a list \<Rightarrow> int \<Rightarrow> error + 'a" where
  "py_index xs i =
     (let pos = (if i < 0 then i + int (length xs) else i)
      in if pos < 0 \<or> int (length xs) \<le> pos then Inl IndexError
         else Inr (xs ! nat pos))"

subsection \<open>Floating point\<close>

text \<open>
  Python's \<open>float\<close> is IEEE binary64. Every finite float is a rational number, and the
  operations the source uses (true division of integers, conversion of an integer,
  multiplication) return the exact result rounded to the nearest float, a tie going to
  the even significand. \<open>fl\<close> is that rounding to 53 significant bits. The exponent is
  not bounded here: results whose magnitude is below 2 to the power -1022 or at least
  2 to the power 1024 (more calendar days than any window has) are outside the model.
\<close>

definition pow2 :: "int \<Rightarrow> rat" where
  "pow2 e = (if 0 \<le> e then 2 ^ nat e else 1 / 2 ^ nat (- e))"

text \<open>\<^verbatim>\<open>round(x)\<close> of a float, with no digits given: the nearest integer, a tie going to
  the even one.\<close>

definition py_round :: "rat \<Rightarrow> int" where
  "py_round x =
     (let below = \<lfloor>x\<rfloor>; rest = x - of_int below
      in if rest < 1 / 2 then below
         else if 1 / 2 < rest then below + 1
         else if even below then below else below + 1)"

text \<open>The exponent \<open>e\<close> of the unit in the last place of a positive \<open>x\<close>:
  \<open>2 ^ 52 \<le> x / pow2 e\<close> and \<open>x / pow2 e < 2 ^ 53\<close>.\<close>

definition ulp_exponent :: "rat \<Rightarrow> int" where
  "ulp_exponent x =
     (let e0 = bitlen (fst (quotient_of x)) - bitlen (snd (quotient_of x)) - 53
      in if x / pow2 e0 < 2 ^ 53 then e0 else e0 + 1)"

definition fl :: "rat \<Rightarrow> rat" where
  "fl x =
     (if x = 0 then 0
      else sgn x * of_int (py_round (\<bar>x\<bar> / pow2 (ulp_exponent \<bar>x\<bar>)))
             * pow2 (ulp_exponent \<bar>x\<bar>))"

text \<open>\<^verbatim>\<open>a / b\<close> on integers (true division).\<close>

definition py_truediv :: "int \<Rightarrow> int \<Rightarrow> error + rat" where
  "py_truediv a b =
     (if b = 0 then Inl ZeroDivisionError else Inr (fl (of_int a / of_int b)))"

text \<open>\<^verbatim>\<open>i * x\<close> for an integer \<open>i\<close> and a float \<open>x\<close>: \<open>i\<close> is converted first.\<close>

definition py_mul_int_float :: "int \<Rightarrow> rat \<Rightarrow> rat" where
  "py_mul_int_float i x = fl (fl (of_int i) * x)"

section \<open>The working-day calculator\<close>

text \<open>\<^verbatim>\<open>list(range(5))[:working_days_per_week]\<close>\<close>

definition allowed_weekdays :: "int \<Rightarrow> int list" where
  "allowed_weekdays w = py_slice_to (py_range 5) w"

text \<open>The \<^verbatim>\<open>while current <= end\<close> loop, with the list built so far as accumulator.
  Each iteration ends with \<^verbatim>\<open>current += timedelta(days=1)\<close>, which raises when
  \<open>current\<close> is the last date of \<^verbatim>\<open>datetime\<close>.\<close>

function collect_working_days ::
  "date \<Rightarrow> date \<Rightarrow> int list \<Rightarrow> date list \<Rightarrow> date list \<Rightarrow> error + date list" where
  "collect_working_days current end allowed hol working_days =
     (if current \<le> end
      then (if max_ordinal < current + 1 then Inl OverflowError
            else collect_working_days (current + 1) end allowed hol
                   (if weekday current \<in> set allowed \<and> current \<notin> set hol
                    then working_days @ [current] else working_days))
      else Inr working_days)"
  by pat_completeness auto
termination
  by (relation "measure (\<lambda>(current, end, _). nat (end + 1 - current))") auto

declare collect_working_days.simps [simp del]

text \<open>The index \<^verbatim>\<open>int(round(i * interval))\<close>; \<open>round\<close> already returns an integer.\<close>

definition spread_index :: "rat \<Rightarrow> int \<Rightarrow> int" where
  "spread_index interval i = py_round (py_mul_int_float i interval)"

text \<open>The comprehension
  \<^verbatim>\<open>[working_days[int(round(i * interval))] for i in range(required_days)]\<close>.\<close>

fun spread_pick :: "date list \<Rightarrow> rat \<Rightarrow> int list \<Rightarrow> error + date list" where
  "spread_pick working_days interval [] = Inr []"
| "spread_pick working_days interval (i # rest) =
     (case py_index working_days (spread_index interval i) of
        Inl e \<Rightarrow> Inl e
      | Inr day \<Rightarrow>
          (case spread_pick working_days interval rest of
             Inl e \<Rightarrow> Inl e
           | Inr days \<Rightarrow> Inr (day # days)))"

text \<open>\<^verbatim>\<open>settings.get('working_days_per_week', 5)\<close> and
  \<^verbatim>\<open>settings.get('spread_days_evenly', False)\<close>\<close>

definition get_working_days_per_week :: "settings \<Rightarrow> int" where
  "get_working_days_per_week st = (case working_days_per_week st of None \<Rightarrow> 5 | Some w \<Rightarrow> w)"

definition get_spread_days_evenly :: "settings \<Rightarrow> bool" where
  "get_spread_days_evenly st = (case spread_days_evenly st of None \<Rightarrow> False | Some b \<Rightarrow> b)"

text \<open>\<^verbatim>\<open>calculate_working_days\<close>, on parsed dates.\<close>

definition calculate_working_days ::
  "date \<Rightarrow> date \<Rightarrow> int \<Rightarrow> date list \<Rightarrow> settings \<Rightarrow> error + (int \<times> bool \<times> date list)" where
  "calculate_working_days start end required hol st =
     (case collect_working_days start end
             (allowed_weekdays (get_working_days_per_week st)) hol [] of
        Inl e \<Rightarrow> Inl e
      | Inr working_days \<Rightarrow>
          (case (if get_spread_days_evenly st \<and> required < int (length working_days)
                 then (case py_truediv (int (length working_days)) required of
                         Inl e \<Rightarrow> Inl e
                       | Inr interval \<Rightarrow>
                           spread_pick working_days interval (py_range required))
                 else Inr working_days) of
             Inl e \<Rightarrow> Inl e
           | Inr days \<Rightarrow> Inr (int (length days), required \<le> int (length days), days)))"

section \<open>The assignment engine\<close>

text \<open>The ledger \<^verbatim>\<open>assigned_dates\<close> is a dictionary from dates to project names, kept
  here as an association list in insertion order; \<^verbatim>\<open>d[k] = v\<close> is \<open>AList.update\<close>.\<close>

type_synonym ledger = "(date \<times> string) list"

text \<open>The inner loop \<^verbatim>\<open>for day in working_days\<close>, with its \<^verbatim>\<open>break\<close>.\<close>

fun claim_days :: "string \<Rightarrow> int \<Rightarrow> date list \<Rightarrow> ledger \<Rightarrow> int \<Rightarrow> ledger \<times> int" where
  "claim_days nm required [] assigned_dates assigned_count = (assigned_dates, assigned_count)"
| "claim_days nm required (day # rest) assigned_dates assigned_count =
     (if required \<le> assigned_count then (assigned_dates, assigned_count)
      else if map_of assigned_dates day = None
      then claim_days nm required rest (AList.update day nm assigned_dates) (assigned_count + 1)
      else claim_days nm required rest assigned_dates assigned_count)"

text \<open>One iteration of \<^verbatim>\<open>for project in projects\<close>.\<close>

definition assign_one ::
  "date list \<Rightarrow> settings \<Rightarrow> project \<Rightarrow> ledger \<times> shortfall list
     \<Rightarrow> error + (ledger \<times> shortfall list)" where
  "assign_one hol st p state =
     (case calculate_working_days (start_date p) (end_date p) (required_days p) hol st of
        Inl e \<Rightarrow> Inl e
      | Inr (available_days, is_sufficient, working_days) \<Rightarrow>
          (let (assigned_dates, assigned_count) =
                 claim_days (name p) (required_days p) working_days (fst state) 0
           in Inr (assigned_dates,
                   if assigned_count < required_days p
                   then snd state @
                     [\<lparr>sf_name = name p, assigned_days = assigned_count,
                       sf_required_days = required_days p\<rparr>]
                   else snd state)))"

fun assign_loop ::
  "date list \<Rightarrow> settings \<Rightarrow> project list \<Rightarrow> ledger \<times> shortfall list
     \<Rightarrow> error + (ledger \<times> shortfall list)" where
  "assign_loop hol st [] state = Inr state"
| "assign_loop hol st (p # ps) state =
     (case assign_one hol st p state of
        Inl e \<Rightarrow> Inl e
      | Inr state' \<Rightarrow> assign_loop hol st ps state')"

text \<open>\<^verbatim>\<open>sorted(projects, key=lambda p: p['priority'])\<close>: the keys are computed first
  (a project without the field raises \<open>KeyError\<close>), then the list is sorted stably.\<close>

fun priority_keys :: "project list \<Rightarrow> error + (int \<times> project) list" where
  "priority_keys [] = Inr []"
| "priority_keys (p # ps) =
     (case priority p of
        None \<Rightarrow> Inl KeyError
      | Some k \<Rightarrow>
          (case priority_keys ps of
             Inl e \<Rightarrow> Inl e
           | Inr keyed \<Rightarrow> Inr ((k, p) # keyed)))"

definition sorted_by_priority :: "project list \<Rightarrow> error + project list" where
  "sorted_by_priority ps =
     (case priority_keys ps of
        Inl e \<Rightarrow> Inl e
      | Inr keyed \<Rightarrow> Inr (map snd (sort_key fst keyed)))"

text \<open>\<^verbatim>\<open>assign_project_dates\<close>, on the loaded configuration.\<close>

definition assign_project_dates :: "config \<Rightarrow> error + (ledger \<times> shortfall list)" where
  "assign_project_dates cfg =
     (case validate_priorities (projects cfg) of
        Inl e \<Rightarrow> Inl e
      | Inr _ \<Rightarrow>
          (case sorted_by_priority (projects cfg) of
             Inl e \<Rightarrow> Inl e
           | Inr ordered \<Rightarrow> assign_loop (holidays cfg) (settings cfg) ordered ([], [])))"

section \<open>Notions of the specification\<close>

text \<open>The eligible days of a window: the dates from \<open>start\<close> to \<open>end\<close> whose weekday is
  allowed and which are no holiday, in chronological order.\<close>

definition eligible_days :: "date \<Rightarrow> date \<Rightarrow> date list \<Rightarrow> settings \<Rightarrow> date list" where
  "eligible_days start end hol st =
     filter (\<lambda>d. weekday d \<in> set (allowed_weekdays (get_working_days_per_week st))
                 \<and> d \<notin> set hol) [start..end]"

text \<open>The dates \<^verbatim>\<open>datetime\<close> can hold, 0001-01-01 to 9999-12-31, by their ordinals:
  the dates parsing can hand to the core. A window of such dates has at most 3652059
  days.\<close>

definition representable :: "date \<Rightarrow> bool" where
  "representable d = (1 \<le> d \<and> d \<le> max_ordinal)"

text \<open>The windows on which the loop of the calculator steps beyond the last date: the
  non-empty windows that end on it (or, outside the dates of \<^verbatim>\<open>datetime\<close>, after
  it).\<close>

definition window_overflows :: "date \<Rightarrow> date \<Rightarrow> bool" where
  "window_overflows start end = (start \<le> end \<and> max_ordinal \<le> end)"

text \<open>The shortfall count of a project in the result of a run: \<open>required_days\<close> minus
  \<open>assigned_days\<close> of its record in the list of shortfalls, and 0 when the list has no
  record of that name (the project got all the days it required).\<close>

definition shortfall_count :: "string \<Rightarrow> shortfall list \<Rightarrow> int" where
  "shortfall_count nm sfs =
     (case find (\<lambda>s. sf_name s = nm) sfs of
        None \<Rightarrow> 0
      | Some s \<Rightarrow> sf_required_days s - assigned_days s)"

text \<open>The allowed weekdays as the specification words them: the first
  \<open>clamp w 0 5\<close> weekdays of a Monday-first week.\<close>

definition clamp :: "int \<Rightarrow> int \<Rightarrow> int \<Rightarrow> int" where
  "clamp x lo hi = max lo (min hi x)"

definition allowed_weekdays_spec :: "int \<Rightarrow> int list" where
  "allowed_weekdays_spec w = take (nat (clamp w 0 5)) [0, 1, 2, 3, 4]"

section \<open>Priority validation: results\<close>

lemma sort_eq_upto_iff:
  "(sort xs = [a..b]) = (mset xs = mset [a..b])"
proof
  assume "sort xs = [a..b]"
  then have "mset (sort xs) = mset [a..b]" by simp
  then show "mset xs = mset [a..b]" by simp
next
  assume "mset xs = mset [a..b]"
  then have "mset [a..b] = mset xs" by simp
  then show "sort xs = [a..b]"
    by (rule properties_for_sort) simp
qed

text \<open>
  Claim C2. Validation returns \<open>True\<close> exactly when the multiset of the projects'
  priorities (a missing priority counted as 0) is the multiset \<open>{1, ..., N}\<close> for \<open>N\<close>
  projects; in every other case the only outcome is the \<open>ValueError\<close> with the observed
  priorities, sorted. The function is pure, so there is no other effect.
\<close>

theorem validate_priorities_iff:
  "(validate_priorities ps = Inr True)
     = (mset (map (\<lambda>p. case priority p of None \<Rightarrow> 0 | Some k \<Rightarrow> k) ps)
          = mset [1..int (length ps)])
   \<and> validate_priorities ps
     = (if mset (map (\<lambda>p. case priority p of None \<Rightarrow> 0 | Some k \<Rightarrow> k) ps)
             = mset [1..int (length ps)]
        then Inr True
        else Inl (ValueError
                    (sort (map (\<lambda>p. case priority p of None \<Rightarrow> 0 | Some k \<Rightarrow> k) ps))
                    (length ps)))"
proof -
  have "get_priority = (\<lambda>p. case priority p of None \<Rightarrow> 0 | Some k \<Rightarrow> k)"
    by (rule ext) (simp add: get_priority_def)
  then show ?thesis
    by (simp add: validate_priorities_def Let_def sort_eq_upto_iff)
qed

text \<open>Instances: the priorities 2, 1 pass in any order, and so does the empty list; a
  duplicate, a gap, a zero, a negative value, a value above \<open>N\<close> and a missing priority
  (counted as 0) fail.\<close>

theorem validate_priorities_iff_witness:
  "validate_priorities
       [\<lparr>name = ''B'', priority = Some 2, start_date = 1, end_date = 2, required_days = 1\<rparr>,
        \<lparr>name = ''A'', priority = Some 1, start_date = 1, end_date = 2, required_days = 1\<rparr>]
     = Inr True
   \<and> validate_priorities [] = Inr True
   \<and> validate_priorities
       [\<lparr>name = ''A'', priority = Some 1, start_date = 1, end_date = 2, required_days = 1\<rparr>,
        \<lparr>name = ''B'', priority = Some 1, start_date = 1, end_date = 2, required_days = 1\<rparr>]
     = Inl (ValueError [1, 1] 2)
   \<and> validate_priorities
       [\<lparr>name = ''A'', priority = Some 3, start_date = 1, end_date = 2, required_days = 1\<rparr>,
        \<lparr>name = ''B'', priority = Some 1, start_date = 1, end_date = 2, required_days = 1\<rparr>]
     = Inl (ValueError [1, 3] 2)
   \<and> validate_priorities
       [\<lparr>name = ''A'', priority = Some 1, start_date = 1, end_date = 2, required_days = 1\<rparr>,
        \<lparr>name = ''B'', priority = Some 0, start_date = 1, end_date = 2, required_days = 1\<rparr>]
     = Inl (ValueError [0, 1] 2)
   \<and> validate_priorities
       [\<lparr>name = ''A'', priority = Some (- 1), start_date = 1, end_date = 2,
         required_days = 1\<rparr>]
     = Inl (ValueError [- 1] 1)
   \<and> validate_priorities
       [\<lparr>name = ''A'', priority = Some 2, start_date = 1, end_date = 2, required_days = 1\<rparr>]
     = Inl (ValueError [2] 1)
   \<and> validate_priorities
       [\<lparr>name = ''A'', priority = Some 1, start_date = 1, end_date = 2, required_days = 1\<rparr>,
        \<lparr>name = ''B'', priority = None, start_date = 1, end_date = 2, required_days = 1\<rparr>]
     = Inl (ValueError [0, 1] 2)"
  using
    validate_priorities_iff [of
      "[\<lparr>name = ''B'', priority = Some 2, start_date = 1, end_date = 2, required_days = 1\<rparr>,
        \<lparr>name = ''A'', priority = Some 1, start_date = 1, end_date = 2, required_days = 1\<rparr>]"]
    validate_priorities_iff [of "[]"]
    validate_priorities_iff [of
      "[\<lparr>name = ''A'', priority = Some 1, start_date = 1, end_date = 2, required_days = 1\<rparr>,
        \<lparr>name = ''B'', priority = Some 1, start_date = 1, end_date = 2, required_days = 1\<rparr>]"]
    validate_priorities_iff [of
      "[\<lparr>name = ''A'', priority = Some 3, start_date = 1, end_date = 2, required_days = 1\<rparr>,
        \<lparr>name = ''B'', priority = Some 1, start_date = 1, end_date = 2, required_days = 1\<rparr>]"]
    validate_priorities_iff [of
      "[\<lparr>name = ''A'', priority = Some 1, start_date = 1, end_date = 2, required_days = 1\<rparr>,
        \<lparr>name = ''B'', priority = Some 0, start_date = 1, end_date = 2, required_days = 1\<rparr>]"]
    validate_priorities_iff [of
      "[\<lparr>name = ''A'', priority = Some (- 1), start_date = 1, end_date = 2,
         required_days = 1\<rparr>]"]
    validate_priorities_iff [of
      "[\<lparr>name = ''A'', priority = Some 2, start_date = 1, end_date = 2, required_days = 1\<rparr>]"]
    validate_priorities_iff [of
      "[\<lparr>name = ''A'', priority = Some 1, start_date = 1, end_date = 2, required_days = 1\<rparr>,
        \<lparr>name = ''B'', priority = None, start_date = 1, end_date = 2, required_days = 1\<rparr>]"]
  by (simp add: sort_eq_upto_iff [symmetric] upto_rec1)

section \<open>The calculator: eligible days\<close>

lemma collect_working_days_eq:
  "collect_working_days current end allowed hol acc
     = (if window_overflows current end then Inl OverflowError
        else Inr (acc @ filter (\<lambda>d. weekday d \<in> set allowed \<and> d \<notin> set hol)
                          [current..end]))"
proof (induction current "end" allowed hol acc rule: collect_working_days.induct)
  case (1 current "end" allowed hol working_days)
  show ?case
  proof (cases "current \<le> end")
    case inside: True
    show ?thesis
    proof (cases "max_ordinal < current + 1")
      case True
      with inside show ?thesis
        by (subst collect_working_days.simps) (simp add: window_overflows_def)
    next
      case False
      from inside have upto: "[current..end] = current # [current + 1..end]"
        by (simp add: upto_rec1)
      from inside False
      have "window_overflows (current + 1) end = window_overflows current end"
        by (auto simp: window_overflows_def)
      with inside False "1.IH" upto show ?thesis
        by (subst collect_working_days.simps) simp
    qed
  next
    case False
    then show ?thesis
      by (subst collect_working_days.simps) (simp add: window_overflows_def)
  qed
qed

lemma allowed_weekdays_nonneg:
  "0 \<le> w \<Longrightarrow> allowed_weekdays w = take (nat w) [0, 1, 2, 3, 4]"
  by (simp add: allowed_weekdays_def py_slice_to_def py_range_def upto_rec1)

lemma allowed_weekdays_neg:
  "w < 0 \<Longrightarrow> allowed_weekdays w = take (nat (5 + w)) [0, 1, 2, 3, 4]"
  by (simp add: allowed_weekdays_def py_slice_to_def py_range_def upto_rec1 add.commute)

lemma allowed_weekdays_subset: "set (allowed_weekdays w) \<subseteq> {0..4}"
  unfolding allowed_weekdays_def py_slice_to_def py_range_def
  using set_take_subset[of _ "[0..4::int]"] by (auto split: if_splits)

lemma collect_eligible_days:
  "collect_working_days start end (allowed_weekdays (get_working_days_per_week st)) hol []
     = (if window_overflows start end then Inl OverflowError
        else Inr (eligible_days start end hol st))"
  by (simp add: collect_working_days_eq eligible_days_def)

lemma calculate_working_days_overflow:
  "window_overflows start end \<Longrightarrow>
     calculate_working_days start end required hol st = Inl OverflowError"
  by (simp add: calculate_working_days_def collect_eligible_days)

lemma calculate_working_days_unfold:
  "calculate_working_days start end required hol st =
     (if window_overflows start end then Inl OverflowError
      else case (if get_spread_days_evenly st
                    \<and> required < int (length (eligible_days start end hol st))
                 then (case py_truediv (int (length (eligible_days start end hol st)))
                              required of
                         Inl e \<Rightarrow> Inl e
                       | Inr interval \<Rightarrow>
                           spread_pick (eligible_days start end hol st) interval
                             (py_range required))
                 else Inr (eligible_days start end hol st)) of
             Inl e \<Rightarrow> Inl e
           | Inr days \<Rightarrow> Inr (int (length days), required \<le> int (length days), days))"
proof (cases "window_overflows start end")
  case True
  then show ?thesis by (simp add: calculate_working_days_overflow)
next
  case False
  then show ?thesis
    by (simp only: calculate_working_days_def collect_eligible_days if_False sum.case)
qed

lemma calculate_working_days_no_spread:
  "\<not> window_overflows start end \<Longrightarrow> \<not> get_spread_days_evenly st \<Longrightarrow>
   calculate_working_days start end required hol st =
     Inr (int (length (eligible_days start end hol st)),
          required \<le> int (length (eligible_days start end hol st)),
          eligible_days start end hol st)"
  by (simp add: calculate_working_days_unfold)

lemmas calculator_eval =
  calculate_working_days_unfold window_overflows_def max_ordinal_def eligible_days_def allowed_weekdays_def py_slice_to_def
  py_range_def weekday_def get_working_days_per_week_def get_spread_days_evenly_def

lemmas engine_eval =
  assign_project_dates_def validate_priorities_def get_priority_def sorted_by_priority_def
  assign_one_def Let_def upto_rec1

lemma eligible_days_sorted: "sorted_wrt (<) (eligible_days start end hol st)"
  unfolding eligible_days_def
  by (rule sorted_wrt_filter) (simp add: sorted_wrt_iff_nth_less)

lemma length_filter_upto:
  "length (filter P [start..end]) = card {d. start \<le> d \<and> d \<le> end \<and> P d}"
proof -
  have "distinct (filter P [start..end])" by simp
  then have "card (set (filter P [start..end])) = length (filter P [start..end])"
    by (rule distinct_card)
  moreover have "set (filter P [start..end]) = {d. start \<le> d \<and> d \<le> end \<and> P d}"
    by auto
  ultimately show ?thesis by simp
qed

lemma eligible_days_filter:
  "eligible_days start end hol st
     = filter (\<lambda>d. weekday d \<in> set (take (nat (case working_days_per_week st of
                                                   None \<Rightarrow> 5
                                                 | Some w \<Rightarrow> if w < 0 then 5 + w else w))
                                       [0, 1, 2, 3, 4])
                 \<and> d \<notin> set hol) [start..end]"
proof (cases "working_days_per_week st")
  case None
  then show ?thesis
    by (simp add: eligible_days_def get_working_days_per_week_def allowed_weekdays_nonneg)
next
  case (Some w)
  then show ?thesis
    by (cases "w < 0")
      (simp_all add: eligible_days_def get_working_days_per_week_def
        allowed_weekdays_nonneg allowed_weekdays_neg)
qed

text \<open>
  Claim C6, as stated, fails, on two inputs. A window that ends on 9999-12-31 (ordinal
  3652059, a Friday) returns nothing: the loop adds a day to the last date and raises
  \<open>OverflowError\<close>. And \<open>working_days_per_week = -1\<close>, of which no weekday is among the
  first, makes the calculator return Monday to Thursday of the week of 2024-01-01
  (the slice \<^verbatim>\<open>list(range(5))[:-1]\<close>), not the empty list.
\<close>

theorem available_days_counterexample:
  "calculate_working_days 3652059 3652059 1 []
       \<lparr>working_days_per_week = Some 5, spread_days_evenly = Some False\<rparr>
     = Inl OverflowError
   \<and> weekday 3652059 = 4
   \<and> calculate_working_days 738886 738892 0 []
       \<lparr>working_days_per_week = Some (- 1), spread_days_evenly = Some False\<rparr>
     = Inr (4, True, [738886, 738887, 738888, 738889])
   \<and> filter (\<lambda>d. weekday d \<in> set (take (nat (- 1)) [0, 1, 2, 3, 4]) \<and> d \<notin> set [])
        [738886..738892] = []"
  by (simp add: calculator_eval upto_rec1)

text \<open>
  Claim C6, amended. For every window that ends before 9999-12-31, with
  \<open>spread_days_evenly\<close> false or absent: the calculator returns exactly the dates of
  \<open>[start, end]\<close> whose weekday is among the first \<open>k\<close> weekdays of Monday to Friday and
  which are no holiday, in chronological order, and \<open>availableCount\<close> is their number;
  \<open>k\<close> is \<open>working_days_per_week\<close> when that is 0 or more (5 when absent) and
  \<open>5 + working_days_per_week\<close> when it is negative. (The window may be empty; what a
  window ending on 9999-12-31 returns is not stated here.)
\<close>

theorem available_days_without_spread:
  assumes "spread_days_evenly st \<noteq> Some True" and "end < 3652059"
  shows "\<exists>days.
     calculate_working_days start end required hol st
       = Inr (int (length days), required \<le> int (length days), days)
     \<and> days = filter (\<lambda>d. weekday d \<in> set (take (nat (case working_days_per_week st of
                                                          None \<Rightarrow> 5
                                                        | Some w \<Rightarrow> if w < 0 then 5 + w else w))
                                              [0, 1, 2, 3, 4])
                           \<and> d \<notin> set hol) [start..end]
     \<and> sorted_wrt (<) days
     \<and> length days = card {d. start \<le> d \<and> d \<le> end
          \<and> weekday d \<in> set (take (nat (case working_days_per_week st of
                                              None \<Rightarrow> 5
                                            | Some w \<Rightarrow> if w < 0 then 5 + w else w))
                                  [0, 1, 2, 3, 4])
          \<and> d \<notin> set hol}"
proof -
  let ?days = "eligible_days start end hol st"
  note eq = eligible_days_filter[of start "end" hol st]
  from assms(1) have "\<not> get_spread_days_evenly st"
    by (auto simp: get_spread_days_evenly_def split: option.splits)
  moreover from assms(2) have "\<not> window_overflows start end"
    by (simp add: window_overflows_def max_ordinal_def)
  ultimately have "calculate_working_days start end required hol st
       = Inr (int (length ?days), required \<le> int (length ?days), ?days)"
    by (rule calculate_working_days_no_spread[rotated])
  moreover have "sorted_wrt (<) ?days" by (rule eligible_days_sorted)
  moreover have "length ?days = card {d. start \<le> d \<and> d \<le> end
          \<and> weekday d \<in> set (take (nat (case working_days_per_week st of
                                              None \<Rightarrow> 5
                                            | Some w \<Rightarrow> if w < 0 then 5 + w else w))
                                  [0, 1, 2, 3, 4])
          \<and> d \<notin> set hol}"
    unfolding eq by (rule length_filter_upto)
  ultimately show ?thesis using eq by blast
qed

theorem available_days_without_spread_witness:
  "calculate_working_days 738886 738892 2 [738887]
       \<lparr>working_days_per_week = Some 3, spread_days_evenly = None\<rparr>
     = Inr (2, True, [738886, 738888])
   \<and> calculate_working_days 738886 738892 6 []
       \<lparr>working_days_per_week = None, spread_days_evenly = Some False\<rparr>
     = Inr (5, False, [738886, 738887, 738888, 738889, 738890])
   \<and> calculate_working_days 738886 738896 3 [738887, 738891]
       \<lparr>working_days_per_week = Some (- 3), spread_days_evenly = None\<rparr>
     = Inr (3, True, [738886, 738893, 738894])
   \<and> calculate_working_days 738892 738886 0 []
       \<lparr>working_days_per_week = Some 0, spread_days_evenly = None\<rparr>
     = Inr (0, True, [])"
proof (intro conjI)
  show "calculate_working_days 738886 738892 2 [738887]
       \<lparr>working_days_per_week = Some 3, spread_days_evenly = None\<rparr>
     = Inr (2, True, [738886, 738888])"
    using available_days_without_spread
      [where st = "\<lparr>working_days_per_week = Some 3, spread_days_evenly = None\<rparr>"
         and start = 738886 and ?end = 738892 and required = 2 and hol = "[738887]"]
    by (simp add: weekday_def)
  show "calculate_working_days 738886 738892 6 []
       \<lparr>working_days_per_week = None, spread_days_evenly = Some False\<rparr>
     = Inr (5, False, [738886, 738887, 738888, 738889, 738890])"
    using available_days_without_spread
      [where st = "\<lparr>working_days_per_week = None, spread_days_evenly = Some False\<rparr>"
         and start = 738886 and ?end = 738892 and required = 6 and hol = "[]"]
    by (simp add: weekday_def)
  show "calculate_working_days 738886 738896 3 [738887, 738891]
       \<lparr>working_days_per_week = Some (- 3), spread_days_evenly = None\<rparr>
     = Inr (3, True, [738886, 738893, 738894])"
    using available_days_without_spread
      [where st = "\<lparr>working_days_per_week = Some (- 3), spread_days_evenly = None\<rparr>"
         and start = 738886 and ?end = 738896 and required = 3
         and hol = "[738887, 738891]"]
    by (simp add: weekday_def)
  show "calculate_working_days 738892 738886 0 []
       \<lparr>working_days_per_week = Some 0, spread_days_evenly = None\<rparr>
     = Inr (0, True, [])"
    using available_days_without_spread
      [where st = "\<lparr>working_days_per_week = Some 0, spread_days_evenly = None\<rparr>"
         and start = 738892 and ?end = 738886 and required = 0 and hol = "[]"]
    by (simp add: weekday_def)
qed

section \<open>The calculator: days returned\<close>

lemma py_index_in_set: "py_index xs i = Inr x \<Longrightarrow> x \<in> set xs"
  by (auto simp: py_index_def Let_def split: if_splits)

lemma spread_pick_subset:
  "spread_pick wd interval idxs = Inr days \<Longrightarrow> set days \<subseteq> set wd"
proof (induction idxs arbitrary: days)
  case Nil
  then show ?case by simp
next
  case (Cons i rest)
  then show ?case
    by (auto split: sum.splits dest: py_index_in_set)
qed

lemma calculate_working_days_subset:
  assumes "calculate_working_days start end required hol st = Inr (cnt, suff, days)"
  shows "set days \<subseteq> set (eligible_days start end hol st)"
  using assms unfolding calculate_working_days_unfold
  by (auto split: if_splits sum.splits dest: spread_pick_subset)

lemma eligible_days_window:
  "d \<in> set (eligible_days start end hol st) \<Longrightarrow> start \<le> d \<and> d \<le> end"
  by (simp add: eligible_days_def)

lemma eligible_days_weekday:
  "d \<in> set (eligible_days start end hol st) \<Longrightarrow> 0 \<le> weekday d \<and> weekday d \<le> 4"
  using allowed_weekdays_subset[of "get_working_days_per_week st"]
  by (auto simp: eligible_days_def)

section \<open>The engine: what a run writes into the ledger\<close>

lemma update_fresh: "map_of al k = None \<Longrightarrow> AList.update k v al = al @ [(k, v)]"
  by (induction al) (auto split: if_splits)

lemma claim_days_keeps:
  "claim_days nm required days al c = (al', c') \<Longrightarrow> map_of al d = Some x
     \<Longrightarrow> map_of al' d = Some x"
proof (induction nm required days al c rule: claim_days.induct)
  case (1 nm required al c)
  then show ?case by simp
next
  case (2 nm required day rest al c)
  then show ?case
    by (cases "d = day") (auto simp: update_conv split: if_splits)
qed

lemma claim_days_entries:
  "claim_days nm required days al c = (al', c') \<Longrightarrow>
     set al' \<subseteq> set al \<union> {(d, nm) |d. d \<in> set days}"
proof (induction nm required days al c rule: claim_days.induct)
  case (1 nm required al c)
  then show ?case by simp
next
  case (2 nm required day rest al c)
  then show ?case
    by (auto simp: update_fresh split: if_splits)
qed

lemma claim_days_distinct:
  "claim_days nm required days al c = (al', c') \<Longrightarrow> distinct (map fst al)
     \<Longrightarrow> distinct (map fst al')"
proof (induction nm required days al c rule: claim_days.induct)
  case (1 nm required al c)
  then show ?case by simp
next
  case (2 nm required day rest al c)
  then show ?case
    by (auto simp: distinct_update split: if_splits)
qed

lemma assign_one_cases:
  assumes "assign_one hol st p (al, sfs) = Inr (al', sfs')"
  obtains cnt suff days c where
    "calculate_working_days (start_date p) (end_date p) (required_days p) hol st
       = Inr (cnt, suff, days)"
    "claim_days (name p) (required_days p) days al 0 = (al', c)"
    "sfs' = (if c < required_days p
             then sfs @ [\<lparr>sf_name = name p, assigned_days = c,
                          sf_required_days = required_days p\<rparr>]
             else sfs)"
  using assms unfolding assign_one_def
  by (auto split: sum.splits prod.splits if_splits)

lemma assign_one_keeps:
  "assign_one hol st p (al, sfs) = Inr (al', sfs') \<Longrightarrow> map_of al d = Some x
     \<Longrightarrow> map_of al' d = Some x"
  by (erule assign_one_cases) (rule claim_days_keeps)

lemma assign_one_distinct:
  "assign_one hol st p (al, sfs) = Inr (al', sfs') \<Longrightarrow> distinct (map fst al)
     \<Longrightarrow> distinct (map fst al')"
  by (erule assign_one_cases) (rule claim_days_distinct)

lemma assign_one_entries:
  assumes "assign_one hol st p (al, sfs) = Inr (al', sfs')"
  shows "set al' \<subseteq> set al \<union>
     {(d, name p) |d. d \<in> set (eligible_days (start_date p) (end_date p) hol st)}"
proof -
  from assms obtain cnt suff days c where
    calc: "calculate_working_days (start_date p) (end_date p) (required_days p) hol st
       = Inr (cnt, suff, days)"
    and claim: "claim_days (name p) (required_days p) days al 0 = (al', c)"
    by (rule assign_one_cases)
  from claim_days_entries[OF claim] calculate_working_days_subset[OF calc]
  show ?thesis by auto
qed

lemma assign_loop_keeps:
  "assign_loop hol st ps (al, sfs) = Inr (al', sfs') \<Longrightarrow> map_of al d = Some x
     \<Longrightarrow> map_of al' d = Some x"
proof (induction ps arbitrary: al sfs)
  case Nil
  then show ?case by simp
next
  case (Cons p ps)
  then show ?case
    by (auto split: sum.splits dest: assign_one_keeps)
qed

lemma assign_loop_distinct:
  "assign_loop hol st ps (al, sfs) = Inr (al', sfs') \<Longrightarrow> distinct (map fst al)
     \<Longrightarrow> distinct (map fst al')"
proof (induction ps arbitrary: al sfs)
  case Nil
  then show ?case by simp
next
  case (Cons p ps)
  then show ?case
    by (auto split: sum.splits dest: assign_one_distinct)
qed

lemma assign_loop_entries:
  "assign_loop hol st ps (al, sfs) = Inr (al', sfs') \<Longrightarrow>
     set al' \<subseteq> set al \<union>
       {(d, name p) |d p. p \<in> set ps
          \<and> d \<in> set (eligible_days (start_date p) (end_date p) hol st)}"
proof (induction ps arbitrary: al sfs)
  case Nil
  then show ?case by simp
next
  case (Cons p ps)
  from Cons.prems obtain al1 sfs1 where
    one: "assign_one hol st p (al, sfs) = Inr (al1, sfs1)"
    and rest: "assign_loop hol st ps (al1, sfs1) = Inr (al', sfs')"
    by (auto split: sum.splits)
  from Cons.IH[OF rest] assign_one_entries[OF one]
  show ?case by (simp add: subset_iff) blast
qed

lemma assign_loop_append:
  "assign_loop hol st (ps @ qs) state =
     (case assign_loop hol st ps state of
        Inl e \<Rightarrow> Inl e
      | Inr state' \<Rightarrow> assign_loop hol st qs state')"
  by (induction ps arbitrary: state) (auto split: sum.splits)

lemma priority_keys_snd: "priority_keys ps = Inr keyed \<Longrightarrow> map snd keyed = ps"
  by (induction ps arbitrary: keyed) (auto split: option.splits sum.splits)

lemma priority_keys_fst:
  "priority_keys ps = Inr keyed \<Longrightarrow> map fst keyed = map get_priority ps"
  by (induction ps arbitrary: keyed)
    (auto simp: get_priority_def split: option.splits sum.splits)

lemma sorted_by_priority_set:
  "sorted_by_priority ps = Inr ordered \<Longrightarrow> set ordered = set ps"
  unfolding sorted_by_priority_def
  by (auto split: sum.splits dest!: priority_keys_snd)

lemma assign_project_dates_cases:
  assumes "assign_project_dates cfg = Inr (al, sfs)"
  obtains ordered where
    "validate_priorities (projects cfg) = Inr True"
    "sorted_by_priority (projects cfg) = Inr ordered"
    "assign_loop (holidays cfg) (settings cfg) ordered ([], []) = Inr (al, sfs)"
  using assms unfolding assign_project_dates_def
  by (auto simp: validate_priorities_def Let_def split: sum.splits if_splits)


section \<open>Weekends\<close>

text \<open>
  Claim C9. Whatever integer \<open>working_days_per_week\<close> holds (above 5 and below 0
  included), whatever the window and the holidays: no date of the list the calculator
  returns is a Saturday or a Sunday (weekday 5 or 6), and so no date of the ledger of a
  run is one.
\<close>

theorem no_weekend_day:
  "(calculate_working_days start end required hol st = Inr (cnt, suff, days)
      \<longrightarrow> (\<forall>d \<in> set days. weekday d \<notin> {5, 6}))
   \<and> (assign_project_dates cfg = Inr (al, sfs)
      \<longrightarrow> (\<forall>d \<in> fst ` set al. weekday d \<notin> {5, 6}))"
proof (intro conjI impI ballI)
  fix d
  assume "calculate_working_days start end required hol st = Inr (cnt, suff, days)"
    and "d \<in> set days"
  then have "d \<in> set (eligible_days start end hol st)"
    using calculate_working_days_subset by blast
  then show "weekday d \<notin> {5, 6}"
    using eligible_days_weekday by fastforce
next
  fix d
  assume run: "assign_project_dates cfg = Inr (al, sfs)" and d: "d \<in> fst ` set al"
  from run obtain ordered where
    loop: "assign_loop (holidays cfg) (settings cfg) ordered ([], []) = Inr (al, sfs)"
    by (rule assign_project_dates_cases)
  from d obtain nm where "(d, nm) \<in> set al" by auto
  with assign_loop_entries[OF loop]
  have "(d, nm) \<in> {(d, name p) |d p. p \<in> set ordered
      \<and> d \<in> set (eligible_days (start_date p) (end_date p) (holidays cfg) (settings cfg))}"
    by auto
  then obtain p :: project where
    "d \<in> set (eligible_days (start_date p) (end_date p) (holidays cfg) (settings cfg))"
    by blast
  then show "weekday d \<notin> {5, 6}"
    using eligible_days_weekday by fastforce
qed

theorem no_weekend_day_witness:
  "calculate_working_days 738886 738899 7 []
       \<lparr>working_days_per_week = Some 7, spread_days_evenly = None\<rparr>
     = Inr (10, True, [738886, 738887, 738888, 738889, 738890,
                       738893, 738894, 738895, 738896, 738897])
   \<and> weekday 738890 = 4 \<and> weekday 738891 = 5 \<and> weekday 738892 = 6 \<and> weekday 738893 = 0
   \<and> assign_project_dates
       \<lparr>projects = [\<lparr>name = ''A'', priority = Some 1, start_date = 738890,
                      end_date = 738893, required_days = 4\<rparr>],
        holidays = [],
        settings = \<lparr>working_days_per_week = Some 9, spread_days_evenly = None\<rparr>\<rparr>
     = Inr ([(738890, ''A''), (738893, ''A'')],
            [\<lparr>sf_name = ''A'', assigned_days = 2, sf_required_days = 4\<rparr>])"
proof -
  let ?st = "\<lparr>working_days_per_week = Some 7, spread_days_evenly = None\<rparr>"
  let ?days = "[738886, 738887, 738888, 738889, 738890,
                738893, 738894, 738895, 738896, 738897]"
  let ?cfg = "\<lparr>projects = [\<lparr>name = ''A'', priority = Some 1, start_date = 738890,
                      end_date = 738893, required_days = 4\<rparr>],
        holidays = [],
        settings = \<lparr>working_days_per_week = Some 9, spread_days_evenly = None\<rparr>\<rparr>"
  let ?al = "[(738890, ''A''), (738893, ''A'')]"
  let ?sfs = "[\<lparr>sf_name = ''A'', assigned_days = 2, sf_required_days = 4\<rparr>]"
  have calc: "calculate_working_days 738886 738899 7 [] ?st = Inr (10, True, ?days)"
    by (simp add: calculator_eval)
  have run: "assign_project_dates ?cfg = Inr (?al, ?sfs)"
    by (simp add: engine_eval calculator_eval)
  from no_weekend_day [of 738886 738899 7 "[]" ?st 10 True ?days ?cfg ?al ?sfs] calc run
  show ?thesis by (simp add: weekday_def)
qed

section \<open>The ledger of a run\<close>

text \<open>
  Claim C1. In the ledger a run returns, every date has one entry only (a date maps to
  at most one project); an entry written while the projects of higher priority were
  processed is still there, with the same project, in the final ledger (a claimed date is
  never overwritten: the first project in priority order to reach it keeps it); and every
  date of the ledger lies in the window of a project of the configuration that bears the
  name the date is assigned to.
\<close>

theorem ledger_invariant:
  assumes "assign_project_dates cfg = Inr (al, sfs)"
  shows "distinct (map fst al)
    \<and> (\<forall>(d, nm) \<in> set al. \<exists>p \<in> set (projects cfg).
          name p = nm \<and> start_date p \<le> d \<and> d \<le> end_date p)
    \<and> (\<forall>earlier later al1 sfs1.
          sorted_by_priority (projects cfg) = Inr (earlier @ later)
          \<and> assign_loop (holidays cfg) (settings cfg) earlier ([], []) = Inr (al1, sfs1)
          \<longrightarrow> (\<forall>d nm. map_of al1 d = Some nm \<longrightarrow> map_of al d = Some nm))"
proof (intro conjI)
  from assms obtain ordered where
    ordered: "sorted_by_priority (projects cfg) = Inr ordered"
    and loop: "assign_loop (holidays cfg) (settings cfg) ordered ([], []) = Inr (al, sfs)"
    by (rule assign_project_dates_cases)
  show "distinct (map fst al)"
    using assign_loop_distinct[OF loop] by simp
  show "\<forall>(d, nm) \<in> set al. \<exists>p \<in> set (projects cfg).
          name p = nm \<and> start_date p \<le> d \<and> d \<le> end_date p"
  proof (clarify)
    fix d nm
    assume "(d, nm) \<in> set al"
    with assign_loop_entries[OF loop]
    have "(d, nm) \<in> {(d, name p) |d p. p \<in> set ordered
      \<and> d \<in> set (eligible_days (start_date p) (end_date p) (holidays cfg) (settings cfg))}"
      by auto
    then obtain p :: project where p: "p \<in> set ordered" "nm = name p"
      "d \<in> set (eligible_days (start_date p) (end_date p) (holidays cfg) (settings cfg))"
      by blast
    from p(1) sorted_by_priority_set[OF ordered] have "p \<in> set (projects cfg)" by simp
    with p(2) eligible_days_window[OF p(3)]
    show "\<exists>p \<in> set (projects cfg). name p = nm \<and> start_date p \<le> d \<and> d \<le> end_date p"
      by blast
  qed
  show "\<forall>earlier later al1 sfs1.
          sorted_by_priority (projects cfg) = Inr (earlier @ later)
          \<and> assign_loop (holidays cfg) (settings cfg) earlier ([], []) = Inr (al1, sfs1)
          \<longrightarrow> (\<forall>d nm. map_of al1 d = Some nm \<longrightarrow> map_of al d = Some nm)"
  proof (intro allI impI, elim conjE)
    fix earlier later al1 sfs1 d nm
    assume split: "sorted_by_priority (projects cfg) = Inr (earlier @ later)"
      and first: "assign_loop (holidays cfg) (settings cfg) earlier ([], []) = Inr (al1, sfs1)"
      and entry: "map_of al1 d = Some nm"
    from split ordered have "ordered = earlier @ later" by simp
    with loop first
    have "assign_loop (holidays cfg) (settings cfg) later (al1, sfs1) = Inr (al, sfs)"
      by (simp add: assign_loop_append)
    from assign_loop_keeps[OF this entry] show "map_of al d = Some nm" .
  qed
qed

theorem ledger_invariant_witness:
  "assign_project_dates
       \<lparr>projects = [\<lparr>name = ''B'', priority = Some 2, start_date = 738886,
                      end_date = 738888, required_days = 2\<rparr>,
                    \<lparr>name = ''A'', priority = Some 1, start_date = 738886,
                      end_date = 738887, required_days = 1\<rparr>],
        holidays = [],
        settings = \<lparr>working_days_per_week = None, spread_days_evenly = None\<rparr>\<rparr>
     = Inr ([(738886, ''A''), (738887, ''B''), (738888, ''B'')], [])
   \<and> distinct (map fst [(738886 :: int, ''A''), (738887, ''B''), (738888, ''B'')])"
proof -
  let ?cfg = "\<lparr>projects = [\<lparr>name = ''B'', priority = Some 2, start_date = 738886,
                      end_date = 738888, required_days = 2\<rparr>,
                    \<lparr>name = ''A'', priority = Some 1, start_date = 738886,
                      end_date = 738887, required_days = 1\<rparr>],
        holidays = [],
        settings = \<lparr>working_days_per_week = None, spread_days_evenly = None\<rparr>\<rparr>"
  have run: "assign_project_dates ?cfg
     = Inr ([(738886, ''A''), (738887, ''B''), (738888, ''B'')], [])"
    by (simp add: engine_eval calculator_eval)
  from ledger_invariant [OF run] run show ?thesis by simp
qed


section \<open>The weekly count outside its range\<close>

lemma allowed_weekdays_eq_spec:
  "allowed_weekdays w = allowed_weekdays_spec (if w < 0 then 5 + w else w)"
proof (cases "w < 0")
  case True
  then show ?thesis
    by (simp add: allowed_weekdays_neg allowed_weekdays_spec_def clamp_def min_def max_def)
next
  case False
  then show ?thesis
    by (simp add: allowed_weekdays_nonneg allowed_weekdays_spec_def clamp_def min_def max_def)
qed

text \<open>
  Claim C3, as stated, fails. The source slices \<^verbatim>\<open>list(range(5))[:working_days_per_week]\<close>
  and a negative bound of a slice counts from the end: with \<open>working_days_per_week = -1\<close> the
  allowed weekdays are Monday to Thursday, not the empty set the clamped value 0 gives, and
  the calculator finds four eligible days in the week of 2024-01-01.
\<close>

theorem negative_weekly_count_counterexample:
  "allowed_weekdays (- 1) = [0, 1, 2, 3]
   \<and> allowed_weekdays_spec (- 1) = []
   \<and> calculate_working_days 738886 738892 0 []
         \<lparr>working_days_per_week = Some (- 1), spread_days_evenly = None\<rparr>
       = Inr (4, True, [738886, 738887, 738888, 738889])"
  by (simp add: allowed_weekdays_spec_def clamp_def calculator_eval upto_rec1)

text \<open>
  Claim C3, amended. For every integer \<open>working_days_per_week\<close> from 0 on (5 when absent)
  the allowed weekdays are the first \<open>clamp w 0 5\<close> weekdays of the Monday-first week, and
  the calculator returns what it returns for the clamped value. A negative value \<open>w\<close> is
  read as \<open>5 + w\<close>: the allowed weekdays are the first \<open>clamp (5 + w) 0 5\<close>, so that
  -1 to -4 leave the first 4 to 1 weekdays and only values of -5 and below leave none.
\<close>

theorem weekly_count_clamped:
  "(0 \<le> get_working_days_per_week st \<longrightarrow>
      allowed_weekdays (get_working_days_per_week st)
        = allowed_weekdays_spec (get_working_days_per_week st)
      \<and> calculate_working_days start end required hol st
        = calculate_working_days start end required hol
            (st\<lparr>working_days_per_week := Some (clamp (get_working_days_per_week st) 0 5)\<rparr>))
   \<and> (get_working_days_per_week st < 0 \<longrightarrow>
      allowed_weekdays (get_working_days_per_week st)
        = allowed_weekdays_spec (5 + get_working_days_per_week st)
      \<and> calculate_working_days start end required hol st
        = calculate_working_days start end required hol
            (st\<lparr>working_days_per_week := Some (clamp (5 + get_working_days_per_week st) 0 5)\<rparr>))"
proof -
  let ?w = "get_working_days_per_week st"
  have same: "calculate_working_days start end required hol st
        = calculate_working_days start end required hol (st\<lparr>working_days_per_week := Some v\<rparr>)"
    if "allowed_weekdays v = allowed_weekdays ?w" for v
  proof -
    have "get_spread_days_evenly (st\<lparr>working_days_per_week := Some v\<rparr>)
        = get_spread_days_evenly st"
      and "get_working_days_per_week (st\<lparr>working_days_per_week := Some v\<rparr>) = v"
      by (simp_all add: get_spread_days_evenly_def get_working_days_per_week_def)
    with that show ?thesis
      by (simp only: calculate_working_days_def)
  qed
  have idem: "allowed_weekdays (clamp v 0 5) = allowed_weekdays_spec v" for v
    by (simp add: allowed_weekdays_nonneg allowed_weekdays_spec_def clamp_def)
  show ?thesis
  proof (intro conjI impI)
    assume w: "0 \<le> ?w"
    then show spec: "allowed_weekdays ?w = allowed_weekdays_spec ?w"
      by (simp add: allowed_weekdays_eq_spec)
    show "calculate_working_days start end required hol st
        = calculate_working_days start end required hol
            (st\<lparr>working_days_per_week := Some (clamp ?w 0 5)\<rparr>)"
      by (rule same) (simp add: idem spec)
  next
    assume w: "?w < 0"
    then show spec: "allowed_weekdays ?w = allowed_weekdays_spec (5 + ?w)"
      by (simp add: allowed_weekdays_eq_spec)
    show "calculate_working_days start end required hol st
        = calculate_working_days start end required hol
            (st\<lparr>working_days_per_week := Some (clamp (5 + ?w) 0 5)\<rparr>)"
      by (rule same) (simp add: idem spec)
  qed
qed

theorem weekly_count_clamped_witness:
  "0 \<le> get_working_days_per_week \<lparr>working_days_per_week = Some 8, spread_days_evenly = None\<rparr>
   \<and> allowed_weekdays 8 = allowed_weekdays_spec 8
   \<and> allowed_weekdays_spec 8 = [0, 1, 2, 3, 4]
   \<and> get_working_days_per_week \<lparr>working_days_per_week = Some (- 3), spread_days_evenly = None\<rparr> < 0
   \<and> allowed_weekdays (- 3) = allowed_weekdays_spec 2
   \<and> allowed_weekdays_spec 2 = [0, 1]"
  using weekly_count_clamped
      [of "\<lparr>working_days_per_week = Some 8, spread_days_evenly = None\<rparr>" 0 0 0 "[]"]
    weekly_count_clamped
      [of "\<lparr>working_days_per_week = Some (- 3), spread_days_evenly = None\<rparr>" 0 0 0 "[]"]
  by (simp add: get_working_days_per_week_def allowed_weekdays_spec_def clamp_def)

section \<open>Failure of the calculator\<close>

text \<open>
  Claim C4. The calculator is to return a triple for every input with \<open>start \<le> end\<close> and
  \<open>requiredDays \<ge> 0\<close>. With \<open>spread_days_evenly\<close> set, \<open>requiredDays = 0\<close> and one eligible
  day (Monday 2024-01-01, ordinal 738886) the source divides by zero.
\<close>

theorem calculate_working_days_zero_required:
  "calculate_working_days 738886 738886 0 []
       \<lparr>working_days_per_week = None, spread_days_evenly = Some True\<rparr>
     = Inl ZeroDivisionError"
  by (simp add: calculator_eval py_truediv_def)

section \<open>Failure of a run\<close>

lemma assign_project_dates_validation_fails:
  "validate_priorities (projects cfg) = Inl e \<Longrightarrow> assign_project_dates cfg = Inl e"
  by (simp add: assign_project_dates_def)

lemma priority_keys_total:
  "\<forall>p \<in> set ps. priority p \<noteq> None \<Longrightarrow> \<exists>keyed. priority_keys ps = Inr keyed"
  by (induction ps) auto

lemma validate_priorities_present:
  assumes "validate_priorities ps = Inr True"
  shows "\<forall>p \<in> set ps. priority p \<noteq> None"
proof
  fix p
  assume p: "p \<in> set ps"
  from assms have "sort (map get_priority ps) = [1..int (length ps)]"
    by (simp add: validate_priorities_def Let_def split: if_splits)
  then have "set (map get_priority ps) = set [1..int (length ps)]"
    by (metis set_sort)
  with p have "1 \<le> get_priority p" by auto
  then show "priority p \<noteq> None"
    by (auto simp: get_priority_def split: option.splits)
qed

lemma sorted_by_priority_total:
  "validate_priorities ps = Inr True \<Longrightarrow> \<exists>ordered. sorted_by_priority ps = Inr ordered"
  using priority_keys_total[OF validate_priorities_present]
  by (fastforce simp: sorted_by_priority_def)

text \<open>
  Claim C5. A failed validation ends the run with that failure, before the ledger exists
  (\<open>assign_project_dates_validation_fails\<close>), and after a successful validation the sort
  by priority cannot fail (\<open>sorted_by_priority_total\<close>). But the run does not always
  complete then: one project of priority 1 with \<open>required_days = 0\<close> on a window that has an
  eligible day, with \<open>spread_days_evenly\<close> set, passes validation and the run ends in the
  division by zero of the calculator.
\<close>

theorem assign_project_dates_zero_required:
  "validate_priorities
       [\<lparr>name = ''Z'', priority = Some 1, start_date = 738886, end_date = 738886,
         required_days = 0\<rparr>]
     = Inr True
   \<and> assign_project_dates
       \<lparr>projects = [\<lparr>name = ''Z'', priority = Some 1, start_date = 738886,
                      end_date = 738886, required_days = 0\<rparr>],
        holidays = [],
        settings = \<lparr>working_days_per_week = None, spread_days_evenly = Some True\<rparr>\<rparr>
     = Inl ZeroDivisionError"
  by (simp add: engine_eval calculator_eval py_truediv_def)


section \<open>Floating point: rounding errors\<close>

lemma pow2_powi: "pow2 e = 2 powi e"
  by (simp add: pow2_def power_int_def inverse_eq_divide power_one_over)

lemma pow2_pos: "0 < pow2 e"
  by (simp add: pow2_powi)

lemma pow2_add: "pow2 (a + b) = pow2 a * pow2 b"
  by (simp add: pow2_powi power_int_add)

lemma pow2_nat: "pow2 (int k) = 2 ^ k"
  by (simp add: pow2_powi)

lemma py_round_error: "\<bar>of_int (py_round x) - x\<bar> \<le> 1 / 2"
proof -
  have "of_int \<lfloor>x\<rfloor> \<le> x" "x < of_int \<lfloor>x\<rfloor> + 1"
    by linarith+
  then show ?thesis
    by (auto simp: py_round_def Let_def abs_le_iff)
qed

lemma py_round_of_int: "py_round (of_int k) = k"
  by (simp add: py_round_def)

lemma quotient_of_pos:
  assumes "0 < x"
  shows "0 < fst (quotient_of x)" "0 < snd (quotient_of x)"
    "x = of_int (fst (quotient_of x)) / of_int (snd (quotient_of x))"
proof -
  obtain a b where ab: "quotient_of x = (a, b)" by (cases "quotient_of x")
  from quotient_of_denom_pos[OF ab] have b: "0 < b" .
  from quotient_of_div[OF ab] have x: "x = of_int a / of_int b" .
  with assms b have "0 < a"
    by (simp add: zero_less_divide_iff)
  with ab b x show "0 < fst (quotient_of x)" "0 < snd (quotient_of x)"
    "x = of_int (fst (quotient_of x)) / of_int (snd (quotient_of x))"
    by simp_all
qed

lemma bitlen_lower: "0 < a \<Longrightarrow> pow2 (bitlen a - 1) \<le> of_int a"
proof -
  assume a: "0 < a"
  then have "1 \<le> bitlen a" by (simp add: bitlen_alt_def)
  then have "pow2 (bitlen a - 1) = 2 ^ nat (bitlen a - 1)"
    by (simp add: pow2_def)
  also have "\<dots> = of_int (2 ^ nat (bitlen a - 1))" by simp
  also have "\<dots> \<le> of_int a"
    using bitlen_bounds[OF a] by (subst of_int_le_iff) simp
  finally show ?thesis .
qed

lemma bitlen_upper: "0 < a \<Longrightarrow> of_int a < pow2 (bitlen a)"
proof -
  assume a: "0 < a"
  have "(of_int a :: rat) < of_int (2 ^ nat (bitlen a))"
    using bitlen_bounds[OF a] by (subst of_int_less_iff) simp
  also have "\<dots> = pow2 (bitlen a)"
    using bitlen_nonneg[of a] by (simp add: pow2_def)
  finally show ?thesis .
qed


lemma ulp_exponent_lower:
  assumes "0 < x"
  shows "2 ^ 52 * pow2 (ulp_exponent x) \<le> x"
proof -
  let ?a = "fst (quotient_of x)" and ?b = "snd (quotient_of x)"
  let ?e0 = "bitlen ?a - bitlen ?b - 53"
  note q = quotient_of_pos[OF assms]
  have xb: "x * of_int ?b = of_int ?a"
    using q(2,3) by (simp add: field_simps)
  have "pow2 (bitlen ?a - 1) \<le> of_int ?a" by (rule bitlen_lower[OF q(1)])
  also have "\<dots> = x * of_int ?b" by (simp add: xb)
  also have "\<dots> < x * pow2 (bitlen ?b)"
    using bitlen_upper[OF q(2)] assms by (simp add: mult_strict_left_mono)
  finally have "pow2 (bitlen ?a - 1) < x * pow2 (bitlen ?b)" .
  moreover have "pow2 (bitlen ?a - 1) = pow2 (?e0 + 52) * pow2 (bitlen ?b)"
    by (simp add: pow2_add[symmetric])
  ultimately have above: "pow2 (?e0 + 52) < x"
    using pow2_pos[of "bitlen ?b"] by simp
  have "pow2 (?e0 + 52) = pow2 ?e0 * pow2 52" by (rule pow2_add)
  also have "pow2 52 = 2 ^ 52" using pow2_nat[of 52] by simp
  finally have "pow2 (?e0 + 52) = 2 ^ 52 * pow2 ?e0" by (simp only: mult.commute)
  with above have low: "2 ^ 52 * pow2 ?e0 < x" by (simp only:)
  show ?thesis
  proof (cases "x / pow2 ?e0 < 2 ^ 53")
    case True
    then have "ulp_exponent x = ?e0" by (simp add: ulp_exponent_def Let_def)
    with low show ?thesis by simp
  next
    case False
    then have e: "ulp_exponent x = ?e0 + 1" by (simp add: ulp_exponent_def Let_def)
    from False have "2 ^ 53 * pow2 ?e0 \<le> x"
      using pow2_pos[of ?e0] by (simp add: field_simps)
    then show ?thesis
      unfolding e pow2_add by (simp add: pow2_def)
  qed
qed

lemma fl_error:
  assumes "0 < x"
  shows "\<bar>fl x - x\<bar> \<le> x / 9007199254740992"
proof -
  let ?e = "ulp_exponent x"
  let ?m = "py_round (x / pow2 ?e)"
  have p: "0 < pow2 ?e" by (rule pow2_pos)
  have "fl x = of_int ?m * pow2 ?e"
    using assms by (simp add: fl_def)
  then have "fl x - x = (of_int ?m - x / pow2 ?e) * pow2 ?e"
    using p by (simp add: field_simps)
  then have "\<bar>fl x - x\<bar> = \<bar>of_int ?m - x / pow2 ?e\<bar> * pow2 ?e"
    using p by (simp add: abs_mult)
  also have "\<dots> \<le> 1 / 2 * pow2 ?e"
    using py_round_error[of "x / pow2 ?e"] p by (intro mult_right_mono) simp_all
  also have "\<dots> \<le> x / 9007199254740992"
    using ulp_exponent_lower[OF assms] by simp
  finally show ?thesis .
qed

lemma fl_zero: "fl 0 = 0"
  by (simp add: fl_def)


lemma ulp_exponent_of_int:
  assumes "0 < i" "i < 2 ^ 53"
  shows "ulp_exponent (of_int i) \<le> 0"
proof -
  have "(2::int) ^ nat (bitlen i - 1) < 2 ^ 53"
    using bitlen_bounds[OF assms(1)] assms(2) by linarith
  then have "nat (bitlen i - 1) < 53"
    by (intro power_less_imp_less_exp[of "2::int"]) simp_all
  then have "bitlen i \<le> 53" by linarith
  moreover have "bitlen 1 = 1" by (simp add: bitlen_alt_def)
  ultimately have "bitlen i - bitlen 1 - 53 + 1 \<le> 0" by simp
  then show ?thesis
    by (simp add: ulp_exponent_def Let_def)
qed

lemma fl_of_int:
  assumes "0 \<le> i" "i < 2 ^ 53"
  shows "fl (of_int i) = of_int i"
proof (cases "i = 0")
  case True
  then show ?thesis by (simp add: fl_zero)
next
  case False
  with assms have pos: "0 < i" by simp
  define k where "k = nat (- ulp_exponent (of_int i))"
  have e: "ulp_exponent (of_int i) = - int k"
    using ulp_exponent_of_int[OF pos assms(2)] by (simp add: k_def)
  have p: "pow2 (- int k) = 1 / 2 ^ k"
    by (cases "k = 0") (simp_all add: pow2_def)
  have "rat_of_int i / pow2 (- int k) = of_int (i * 2 ^ k)"
    by (simp add: p)
  then have "py_round (rat_of_int i / pow2 (- int k)) = i * 2 ^ k"
    by (simp only: py_round_of_int)
  then show ?thesis
    using pos by (simp add: fl_def e p)
qed


section \<open>The indices of the even spread\<close>

lemma interval_exact_bounds:
  assumes "1 \<le> r" "r < n" "n \<le> 3652059"
  shows "1 + 1 / 3652059 \<le> rat_of_int n / of_int r"
    and "rat_of_int n / of_int r \<le> 3652059"
proof -
  let ?N = "rat_of_int n" and ?R = "rat_of_int r"
  from assms(2) have "r + 1 \<le> n" by simp
  then have "rat_of_int (r + 1) \<le> ?N" by (simp only: of_int_le_iff)
  then have R: "1 \<le> ?R" "?R + 1 \<le> ?N" "?N \<le> 3652059"
    using assms(1,3) by simp_all
  have "?R * (1 + 1 / 3652059) \<le> ?R + 1"
    using R by (simp add: algebra_simps)
  also have "\<dots> \<le> ?N" by (rule R(2))
  finally show "1 + 1 / 3652059 \<le> ?N / ?R"
    using R(1) by (simp add: pos_le_divide_eq mult.commute)
  have "?N / ?R \<le> ?N / 1"
    using R by (intro divide_left_mono) simp_all
  with R(3) show "?N / ?R \<le> 3652059" by simp
qed

lemma fl_bounds:
  assumes "0 < x"
  shows "x - x / 9007199254740992 \<le> fl x" and "fl x \<le> x + x / 9007199254740992"
  using fl_error[OF assms] by linarith+

lemma py_round_bounds:
  shows "x - 1 / 2 \<le> of_int (py_round x)" and "of_int (py_round x) \<le> x + 1 / 2"
  using py_round_error[of x] by linarith+

lemma interval_bounds:
  assumes "1 \<le> r" "r < n" "n \<le> 3652059"
  shows "rat_of_int n / of_int r - 3652059 / 9007199254740992 \<le> fl (rat_of_int n / of_int r)"
    and "fl (rat_of_int n / of_int r) \<le> rat_of_int n / of_int r + 3652059 / 9007199254740992"
    and "1 \<le> fl (rat_of_int n / of_int r)"
proof -
  let ?q = "rat_of_int n / of_int r"
  note q = interval_exact_bounds[OF assms]
  from q(1) have pos: "0 < ?q" by linarith
  from q(2) have small: "?q / 9007199254740992 \<le> 3652059 / 9007199254740992"
    by (simp add: divide_right_mono)
  from fl_bounds(1)[OF pos] small
  show low: "?q - 3652059 / 9007199254740992 \<le> fl ?q" by linarith
  from fl_bounds(2)[OF pos] small
  show "fl ?q \<le> ?q + 3652059 / 9007199254740992" by linarith
  from low q(1) show "1 \<le> fl ?q" by linarith
qed

lemma py_mul_int_float_bounds:
  assumes "0 \<le> i" "i < 2 ^ 53" "0 \<le> x"
  shows "of_int i * x - of_int i * x / 9007199254740992 \<le> py_mul_int_float i x"
    and "py_mul_int_float i x \<le> of_int i * x + of_int i * x / 9007199254740992"
proof -
  have conv: "py_mul_int_float i x = fl (of_int i * x)"
    using assms by (simp add: py_mul_int_float_def fl_of_int)
  have "of_int i * x - of_int i * x / 9007199254740992 \<le> fl (of_int i * x)
      \<and> fl (of_int i * x) \<le> of_int i * x + of_int i * x / 9007199254740992"
  proof (cases "of_int i * x = 0")
    case True
    show ?thesis by (simp add: True fl_zero)
  next
    case False
    with assms have "0 < of_int i * x"
      by (simp add: zero_less_mult_iff less_le)
    from fl_bounds[OF this] show ?thesis by simp
  qed
  then show "of_int i * x - of_int i * x / 9007199254740992 \<le> py_mul_int_float i x"
    and "py_mul_int_float i x \<le> of_int i * x + of_int i * x / 9007199254740992"
    by (simp_all only: conv)
qed

lemma spread_product_upper:
  assumes "1 \<le> r" "r < n" "n \<le> 3652059" "0 \<le> i" "i \<le> r"
  shows "rat_of_int i * fl (rat_of_int n / of_int r) \<le> 7304118"
proof -
  let ?q = "rat_of_int n / of_int r" and ?R = "rat_of_int r" and ?N = "rat_of_int n"
  have R: "1 \<le> ?R" "?R \<le> 3652059" "?N \<le> 3652059"
    using assms(1-3) by simp_all
  have Rq: "?R * ?q = ?N" using R(1) by simp
  note I = interval_bounds[OF assms(1-3)]
  have "rat_of_int i * fl ?q \<le> ?R * fl ?q"
    using assms(5) I(3) by (intro mult_right_mono) simp_all
  also have "\<dots> \<le> ?R * (?q + 3652059 / 9007199254740992)"
    using I(2) R(1) by (intro mult_left_mono) simp_all
  also have "\<dots> = ?N + ?R * (3652059 / 9007199254740992)"
    by (simp only: distrib_left Rq)
  also have "\<dots> \<le> 7304118"
    using R(2,3) by linarith
  finally show ?thesis .
qed

lemma spread_product_bounds:
  assumes "1 \<le> r" "r < n" "n \<le> 3652059" "0 \<le> i" "i \<le> r"
  shows "of_int i * fl (rat_of_int n / of_int r) - 7304118 / 9007199254740992
           \<le> py_mul_int_float i (fl (rat_of_int n / of_int r))"
    and "py_mul_int_float i (fl (rat_of_int n / of_int r))
           \<le> of_int i * fl (rat_of_int n / of_int r) + 7304118 / 9007199254740992"
proof -
  let ?I = "fl (rat_of_int n / of_int r)"
  have i: "i < 2 ^ 53" using assms(2,3,5) by simp
  have I: "0 \<le> ?I" using interval_bounds(3)[OF assms(1-3)] by simp
  have small: "of_int i * ?I / 9007199254740992 \<le> 7304118 / 9007199254740992"
    using spread_product_upper[OF assms] by (simp add: divide_right_mono)
  from py_mul_int_float_bounds(1)[OF assms(4) i I] small
  show "of_int i * ?I - 7304118 / 9007199254740992 \<le> py_mul_int_float i ?I"
    by linarith
  from py_mul_int_float_bounds(2)[OF assms(4) i I] small
  show "py_mul_int_float i ?I \<le> of_int i * ?I + 7304118 / 9007199254740992"
    by linarith
qed

lemma py_round_less:
  assumes "x + 1 < y"
  shows "py_round x < py_round y"
proof -
  from py_round_bounds(2)[of x] py_round_bounds(1)[of y] assms
  have "rat_of_int (py_round x) < of_int (py_round y)" by linarith
  then show ?thesis by (simp only: of_int_less_iff)
qed

lemma spread_index_increasing:
  assumes "1 \<le> r" "r < n" "n \<le> 3652059" "0 \<le> i" "i < j" "j < r"
  shows "spread_index (fl (rat_of_int n / of_int r)) i
       < spread_index (fl (rat_of_int n / of_int r)) j"
proof -
  let ?I = "fl (rat_of_int n / of_int r)"
  note q = interval_exact_bounds(1)[OF assms(1-3)]
  note I = interval_bounds[OF assms(1-3)]
  have bi: "py_mul_int_float i ?I \<le> of_int i * ?I + 7304118 / 9007199254740992"
    using assms by (intro spread_product_bounds) simp_all
  have bj: "of_int j * ?I - 7304118 / 9007199254740992 \<le> py_mul_int_float j ?I"
    using assms by (intro spread_product_bounds) simp_all
  from assms(5) have "i + 1 \<le> j" by simp
  then have "rat_of_int (i + 1) \<le> rat_of_int j" by (simp only: of_int_le_iff)
  then have "rat_of_int (i + 1) * ?I \<le> rat_of_int j * ?I"
    using I(3) by (intro mult_right_mono) simp_all
  then have step: "rat_of_int i * ?I + ?I \<le> rat_of_int j * ?I"
    by (simp add: algebra_simps)
  from bi bj step q I(1)
  have "py_mul_int_float i ?I + 1 < py_mul_int_float j ?I" by linarith
  then show ?thesis
    unfolding spread_index_def by (rule py_round_less)
qed

lemma spread_index_range:
  assumes "1 \<le> r" "r < n" "n \<le> 3652059" "0 \<le> i" "i < r"
  shows "0 \<le> spread_index (fl (rat_of_int n / of_int r)) i"
    and "spread_index (fl (rat_of_int n / of_int r)) i < n"
proof -
  let ?I = "fl (rat_of_int n / of_int r)"
  let ?q = "rat_of_int n / of_int r" and ?R = "rat_of_int r" and ?N = "rat_of_int n"
  let ?p = "py_mul_int_float i ?I"
  have R: "1 \<le> ?R" "?R \<le> 3652059" "?N \<le> 3652059"
    using assms(1-3) by simp_all
  have Rq: "?R * ?q = ?N" using R(1) by simp
  note q = interval_exact_bounds(1)[OF assms(1-3)]
  note I = interval_bounds[OF assms(1-3)]
  have b: "of_int i * ?I - 7304118 / 9007199254740992 \<le> ?p"
    "?p \<le> of_int i * ?I + 7304118 / 9007199254740992"
    using assms by (intro spread_product_bounds; simp)+
  have "0 \<le> rat_of_int i * ?I" using assms(4) I(3) by simp
  with b(1) py_round_bounds(1)[of ?p]
  have "- 1 < rat_of_int (py_round ?p)" by linarith
  then have "rat_of_int (- 1) < of_int (py_round ?p)" by simp
  then have "- 1 < py_round ?p" by (simp only: of_int_less_iff)
  then show "0 \<le> spread_index ?I i" by (simp add: spread_index_def)
  from assms(5) have "i \<le> r - 1" by simp
  then have "rat_of_int i \<le> rat_of_int (r - 1)" by (simp only: of_int_le_iff)
  then have "rat_of_int i * ?I \<le> (?R - 1) * ?I"
    using I(3) by (intro mult_right_mono) simp_all
  also have "\<dots> \<le> (?R - 1) * (?q + 3652059 / 9007199254740992)"
    using I(2) R(1) by (intro mult_left_mono) simp_all
  also have "\<dots> = ?N - ?q + (?R - 1) * (3652059 / 9007199254740992)"
    by (simp only: distrib_left left_diff_distrib[of ?R 1 ?q] mult_1 Rq)
  finally have a: "rat_of_int i * ?I
      \<le> ?N - ?q + (?R - 1) * (3652059 / 9007199254740992)" .
  have "(?R - 1) * (3652059 / 9007199254740992)
      \<le> 3652059 * (3652059 / 9007199254740992)"
    using R(2) by (intro mult_right_mono) simp_all
  with a q b(2) py_round_bounds(2)[of ?p]
  have "rat_of_int (py_round ?p) < ?N" by linarith
  then show "spread_index ?I i < n"
    by (simp only: spread_index_def of_int_less_iff)
qed


section \<open>The even spread\<close>

lemma py_index_in_range:
  "0 \<le> k \<Longrightarrow> k < int (length xs) \<Longrightarrow> py_index xs k = Inr (xs ! nat k)"
  by (simp add: py_index_def)

lemma spread_pick_map:
  assumes "\<forall>i \<in> set idxs. 0 \<le> spread_index interval i
      \<and> spread_index interval i < int (length wd)"
  shows "spread_pick wd interval idxs
     = Inr (map (\<lambda>i. wd ! nat (spread_index interval i)) idxs)"
  using assms by (induction idxs) (simp_all add: py_index_in_range)

lemma eligible_days_length:
  assumes "1 \<le> start" "end \<le> 3652059"
  shows "int (length (eligible_days start end hol st)) \<le> 3652059"
proof -
  have "length (eligible_days start end hol st) \<le> length [start..end]"
    unfolding eligible_days_def by (rule length_filter_le)
  then show ?thesis
    using assms by simp
qed

text \<open>The days the calculator picks when it spreads: the eligible days at the indices
  \<open>spread_index interval i\<close> for \<open>i\<close> from 0 to \<open>required - 1\<close>.\<close>

lemma calculate_working_days_spread:
  assumes "1 \<le> start" "end < 3652059" "get_spread_days_evenly st"
    and "1 \<le> required" "required < int (length (eligible_days start end hol st))"
  shows "calculate_working_days start end required hol st
     = Inr (required, True,
         map (\<lambda>i. eligible_days start end hol st
                 ! nat (spread_index
                     (fl (of_int (int (length (eligible_days start end hol st)))
                            / of_int required)) i))
           (py_range required))"
proof -
  let ?E = "eligible_days start end hol st"
  let ?I = "fl (of_int (int (length ?E)) / of_int required)"
  from assms(1,2) have n: "int (length ?E) \<le> 3652059"
    by (intro eligible_days_length) simp_all
  from assms(2) have ok: "\<not> window_overflows start end"
    by (simp add: window_overflows_def max_ordinal_def)
  have div: "py_truediv (int (length ?E)) required = Inr ?I"
    using assms(4) by (simp add: py_truediv_def)
  have "\<forall>i \<in> set (py_range required).
      0 \<le> spread_index ?I i \<and> spread_index ?I i < int (length ?E)"
    using spread_index_range[OF assms(4,5) n] by (simp add: py_range_def)
  then have "spread_pick ?E ?I (py_range required)
     = Inr (map (\<lambda>i. ?E ! nat (spread_index ?I i)) (py_range required))"
    by (rule spread_pick_map)
  moreover have "length (py_range required) = nat required"
    by (simp add: py_range_def)
  ultimately show ?thesis
    using assms(3,4,5) ok by (simp add: calculate_working_days_unfold div)
qed

lemma spread_indices_sorted:
  assumes "1 \<le> r" "r < n" "n \<le> 3652059"
  shows "sorted_wrt (<) (map (spread_index (fl (of_int n / of_int r))) (py_range r))"
proof -
  let ?idx = "spread_index (fl (of_int n / of_int r))"
  have "sorted_wrt (<) (py_range r)"
    by (simp add: py_range_def strict_sorted_iff)
  then have "sorted_wrt (\<lambda>i j. ?idx i < ?idx j) (py_range r)"
  proof (rule sorted_wrt_mono_rel[rotated])
    fix i j
    assume "i \<in> set (py_range r)" and "j \<in> set (py_range r)" and "i < j"
    then have ij: "0 \<le> i" "i < j" "j < r" by (simp_all add: py_range_def)
    from spread_index_increasing[OF assms ij] show "?idx i < ?idx j" .
  qed
  then show ?thesis by (simp add: sorted_wrt_map)
qed

lemma spread_days_sorted:
  assumes "1 \<le> r" "r < int (length xs)" "int (length xs) \<le> 3652059"
    and "sorted_wrt (<) xs"
  shows "sorted_wrt (<)
     (map (\<lambda>i. xs ! nat (spread_index (fl (of_int (int (length xs)) / of_int r)) i))
        (py_range r))"
proof -
  let ?idx = "spread_index (fl (of_int (int (length xs)) / of_int r))"
  have "sorted_wrt (<) (py_range r)"
    by (simp add: py_range_def strict_sorted_iff)
  then have "sorted_wrt (\<lambda>i j. xs ! nat (?idx i) < xs ! nat (?idx j)) (py_range r)"
  proof (rule sorted_wrt_mono_rel[rotated])
    fix i j
    assume i: "i \<in> set (py_range r)" and j: "j \<in> set (py_range r)" and "i < j"
    then have ij: "0 \<le> i" "i < j" "j < r" by (simp_all add: py_range_def)
    from spread_index_increasing[OF assms(1-3) ij]
    have less: "?idx i < ?idx j" .
    from ij have "i < r" by simp
    from spread_index_range(1)[OF assms(1-3) ij(1) this]
    have low: "0 \<le> ?idx i" .
    from ij have "0 \<le> j" by simp
    from spread_index_range(2)[OF assms(1-3) this ij(3)]
    have up: "?idx j < int (length xs)" .
    from less low up have "nat (?idx i) < nat (?idx j)" "nat (?idx j) < length xs"
      by simp_all
    with assms(4) show "xs ! nat (?idx i) < xs ! nat (?idx j)"
      by (simp add: sorted_wrt_nth_less)
  qed
  then show ?thesis by (simp add: sorted_wrt_map)
qed


lemma spread_on_field: "spread_days_evenly st = Some True \<Longrightarrow> get_spread_days_evenly st"
  by (simp add: get_spread_days_evenly_def)

text \<open>
  Claim C10. When the down-sampling branch runs (\<open>spread_days_evenly\<close> set, more
  eligible days than \<open>required\<close>, \<open>required\<close> at least 1; the window holds dates of
  \<^verbatim>\<open>datetime\<close> and ends before the last one, so that the loop has finished), every index
  \<open>int(round(i * interval))\<close> for \<open>i\<close> from 0 to \<open>required - 1\<close> lies between 0 and
  \<open>eligibleCount - 1\<close>, the indices increase strictly with \<open>i\<close>, and the calculator
  returns the \<open>required\<close> eligible days at these indices, in chronological order.
\<close>

theorem spread_indices_in_range_increasing:
  assumes "1 \<le> start" "end < 3652059" "spread_days_evenly st = Some True"
    and "1 \<le> required" "required < int (length (eligible_days start end hol st))"
  shows "\<exists>interval.
      py_truediv (int (length (eligible_days start end hol st))) required = Inr interval
    \<and> (\<forall>i. 0 \<le> i \<and> i < required \<longrightarrow>
          0 \<le> spread_index interval i
          \<and> spread_index interval i \<le> int (length (eligible_days start end hol st)) - 1)
    \<and> (\<forall>i j. 0 \<le> i \<and> i < j \<and> j < required \<longrightarrow>
          spread_index interval i < spread_index interval j)
    \<and> (\<exists>days. calculate_working_days start end required hol st = Inr (required, True, days)
          \<and> days = map (\<lambda>i. eligible_days start end hol st ! nat (spread_index interval i))
                     (py_range required)
          \<and> int (length days) = required
          \<and> sorted_wrt (<) days)"
proof -
  let ?E = "eligible_days start end hol st"
  let ?I = "fl (of_int (int (length ?E)) / of_int required)"
  let ?days = "map (\<lambda>i. ?E ! nat (spread_index ?I i)) (py_range required)"
  from assms(1,2) have n: "int (length ?E) \<le> 3652059"
    by (intro eligible_days_length) simp_all
  have "py_truediv (int (length ?E)) required = Inr ?I"
    using assms(4) by (simp add: py_truediv_def)
  moreover have "\<forall>i. 0 \<le> i \<and> i < required \<longrightarrow>
      0 \<le> spread_index ?I i \<and> spread_index ?I i \<le> int (length ?E) - 1"
    using spread_index_range[OF assms(4,5) n] by fastforce
  moreover have "\<forall>i j. 0 \<le> i \<and> i < j \<and> j < required \<longrightarrow>
      spread_index ?I i < spread_index ?I j"
    using spread_index_increasing[OF assms(4,5) n] by blast
  moreover have "calculate_working_days start end required hol st
      = Inr (required, True, ?days)"
    using assms(1,2) spread_on_field[OF assms(3)] assms(4,5)
    by (rule calculate_working_days_spread)
  moreover have "int (length ?days) = required"
    using assms(4) by (simp add: py_range_def)
  moreover have "sorted_wrt (<) ?days"
    using assms(4,5) n eligible_days_sorted by (rule spread_days_sorted)
  ultimately show ?thesis by blast
qed

theorem spread_indices_in_range_increasing_witness:
  "eligible_days 738886 738899 []
       \<lparr>working_days_per_week = None, spread_days_evenly = Some True\<rparr>
     = [738886, 738887, 738888, 738889, 738890, 738893, 738894, 738895, 738896, 738897]
   \<and> py_truediv 10 4 = Inr (5 / 2)
   \<and> map (spread_index (5 / 2)) [0, 1, 2, 3] = [0, 2, 5, 8]
   \<and> calculate_working_days 738886 738899 4 []
       \<lparr>working_days_per_week = None, spread_days_evenly = Some True\<rparr>
     = Inr (4, True, [738886, 738888, 738893, 738896])
   \<and> py_truediv 10 3 = Inr (7505999378950827 / 2251799813685248)
   \<and> map (spread_index (7505999378950827 / 2251799813685248)) [0, 1, 2] = [0, 3, 7]
   \<and> calculate_working_days 738886 738899 3 []
       \<lparr>working_days_per_week = None, spread_days_evenly = Some True\<rparr>
     = Inr (3, True, [738886, 738889, 738895])"
proof -
  let ?st = "\<lparr>working_days_per_week = None, spread_days_evenly = Some True\<rparr>"
  have E: "eligible_days 738886 738899 [] ?st
     = [738886, 738887, 738888, 738889, 738890, 738893, 738894, 738895, 738896, 738897]"
    by (simp add: calculator_eval upto_rec1)
  have div: "py_truediv 10 4 = Inr (5 / 2)"
    "py_truediv 10 3 = Inr (7505999378950827 / 2251799813685248)"
    by code_simp+
  have idx: "spread_index (5 / 2) 0 = 0" "spread_index (5 / 2) 1 = 2"
    "spread_index (5 / 2) 2 = 5" "spread_index (5 / 2) 3 = 8"
    "spread_index (7505999378950827 / 2251799813685248) 0 = 0"
    "spread_index (7505999378950827 / 2251799813685248) 1 = 3"
    "spread_index (7505999378950827 / 2251799813685248) 2 = 7"
    by code_simp+
  have h: "(1 :: int) \<le> 738886" "(738899 :: int) < 3652059"
    "spread_days_evenly ?st = Some True"
    by simp_all
  have h4: "(1 :: int) \<le> 4" "4 < int (length (eligible_days 738886 738899 [] ?st))"
    and h3: "(1 :: int) \<le> 3" "3 < int (length (eligible_days 738886 738899 [] ?st))"
    by (simp_all add: E)
  from spread_indices_in_range_increasing [OF h h4] obtain interval days where
    i: "py_truediv (int (length (eligible_days 738886 738899 [] ?st))) 4 = Inr interval"
    and c: "calculate_working_days 738886 738899 4 [] ?st = Inr (4, True, days)"
    and d: "days = map (\<lambda>i. eligible_days 738886 738899 [] ?st
                            ! nat (spread_index interval i)) (py_range 4)"
    by blast
  from i div(1) have "interval = 5 / 2" by (simp add: E)
  with d have four: "days = [738886, 738888, 738893, 738896]"
    by (simp add: E idx py_range_def upto_rec1)
  from spread_indices_in_range_increasing [OF h h3] obtain interval' days' where
    i': "py_truediv (int (length (eligible_days 738886 738899 [] ?st))) 3 = Inr interval'"
    and c': "calculate_working_days 738886 738899 3 [] ?st = Inr (3, True, days')"
    and d': "days' = map (\<lambda>i. eligible_days 738886 738899 [] ?st
                            ! nat (spread_index interval' i)) (py_range 3)"
    by blast
  from i' div(2) have "interval' = 7505999378950827 / 2251799813685248" by (simp add: E)
  with d' have three: "days' = [738886, 738889, 738895]"
    by (simp add: E idx py_range_def upto_rec1)
  from c c' four three E div idx show ?thesis by simp
qed

text \<open>
  Claim C8, as stated, fails: it says that some input makes the indices
  \<open>round(i * interval)\<close> collide, so that fewer than \<open>requiredDays\<close> distinct dates are
  returned. No window of dates of \<^verbatim>\<open>datetime\<close> does: with more eligible days than
  \<open>requiredDays\<close> the interval is above 1, consecutive products \<open>i * interval\<close> differ by
  more than 1 also after their rounding to floats, and so they round to different
  integers.
\<close>

theorem spread_collision_counterexample:
  "\<not> (\<exists>start end required hol st cnt suff days.
        representable start \<and> representable end
      \<and> spread_days_evenly st = Some True
      \<and> 1 \<le> required \<and> required < int (length (eligible_days start end hol st))
      \<and> calculate_working_days start end required hol st = Inr (cnt, suff, days)
      \<and> required \<le> cnt
      \<and> (int (card (set days)) < required
         \<or> \<not> distinct (map (spread_index
                (fl (of_int (int (length (eligible_days start end hol st)))
                       / of_int required)))
              (py_range required))))"
proof
  assume "\<exists>start end required hol st cnt suff days.
        representable start \<and> representable end
      \<and> spread_days_evenly st = Some True
      \<and> 1 \<le> required \<and> required < int (length (eligible_days start end hol st))
      \<and> calculate_working_days start end required hol st = Inr (cnt, suff, days)
      \<and> required \<le> cnt
      \<and> (int (card (set days)) < required
         \<or> \<not> distinct (map (spread_index
                (fl (of_int (int (length (eligible_days start end hol st)))
                       / of_int required)))
              (py_range required)))"
  then obtain start "end" required hol st cnt suff days where
    range: "representable start" "representable end"
    and spread: "spread_days_evenly st = Some True"
    and req: "1 \<le> required" "required < int (length (eligible_days start end hol st))"
    and calc: "calculate_working_days start end required hol st = Inr (cnt, suff, days)"
    and bad: "int (card (set days)) < required
         \<or> \<not> distinct (map (spread_index
                (fl (of_int (int (length (eligible_days start end hol st)))
                       / of_int required)))
              (py_range required))"
    by blast
  let ?E = "eligible_days start end hol st"
  let ?I = "fl (of_int (int (length ?E)) / of_int required)"
  let ?days = "map (\<lambda>i. ?E ! nat (spread_index ?I i)) (py_range required)"
  from calc have "\<not> window_overflows start end"
    by (auto simp: calculate_working_days_overflow)
  moreover from req have "?E \<noteq> []" by auto
  then have "start \<le> end"
    unfolding eligible_days_def by (cases "start \<le> end") simp_all
  ultimately have e: "end < 3652059"
    using range(2) by (simp add: window_overflows_def representable_def max_ordinal_def)
  from range(1) have s: "1 \<le> start" by (simp add: representable_def)
  from s e have n: "int (length ?E) \<le> 3652059"
    by (intro eligible_days_length) simp_all
  from calculate_working_days_spread[OF s e spread_on_field[OF spread] req] calc
  have days: "days = ?days" by simp
  have "sorted_wrt (<) ?days"
    using req n eligible_days_sorted by (rule spread_days_sorted)
  then have "distinct ?days" by (simp add: strict_sorted_iff)
  then have "card (set ?days) = length ?days" by (rule distinct_card)
  then have "int (card (set days)) = required"
    using req(1) by (simp add: days py_range_def)
  moreover have "distinct (map (spread_index ?I) (py_range required))"
    using spread_indices_sorted[OF req n] by (simp add: strict_sorted_iff)
  ultimately show False using bad by simp
qed

text \<open>
  Claim C8, amended. For every input with \<open>spread_days_evenly\<close> set and more eligible days
  than \<open>requiredDays\<close>, \<open>requiredDays\<close> at least 1 (a window of dates of \<^verbatim>\<open>datetime\<close>
  that ends before the last one): the indices \<open>round(i * interval)\<close> are pairwise distinct,
  and the returned list holds exactly \<open>requiredDays\<close> distinct dates, with
  \<open>availableCount = requiredDays\<close> reported.
\<close>

theorem spread_days_distinct:
  assumes "1 \<le> start" "end < 3652059" "spread_days_evenly st = Some True"
    and "1 \<le> required" "required < int (length (eligible_days start end hol st))"
  shows "distinct (map (spread_index
              (fl (of_int (int (length (eligible_days start end hol st))) / of_int required)))
            (py_range required))
    \<and> (\<exists>days. calculate_working_days start end required hol st = Inr (required, True, days)
          \<and> distinct days \<and> int (card (set days)) = required)"
proof -
  let ?E = "eligible_days start end hol st"
  let ?I = "fl (of_int (int (length ?E)) / of_int required)"
  let ?days = "map (\<lambda>i. ?E ! nat (spread_index ?I i)) (py_range required)"
  from assms(1,2) have n: "int (length ?E) \<le> 3652059"
    by (intro eligible_days_length) simp_all
  have calc: "calculate_working_days start end required hol st
      = Inr (required, True, ?days)"
    using assms(1,2) spread_on_field[OF assms(3)] assms(4,5)
    by (rule calculate_working_days_spread)
  have "sorted_wrt (<) ?days"
    using assms(4,5) n eligible_days_sorted by (rule spread_days_sorted)
  then have d: "distinct ?days" by (simp add: strict_sorted_iff)
  then have "card (set ?days) = length ?days" by (rule distinct_card)
  then have c: "int (card (set ?days)) = required"
    using assms(4) by (simp add: py_range_def)
  have "distinct (map (spread_index ?I) (py_range required))"
    using spread_indices_sorted[OF assms(4,5) n] by (simp add: strict_sorted_iff)
  with calc d c show ?thesis by blast
qed

theorem spread_days_distinct_witness:
  "eligible_days 738886 738888 []
       \<lparr>working_days_per_week = Some 5, spread_days_evenly = Some True\<rparr>
     = [738886, 738887, 738888]
   \<and> py_truediv 3 2 = Inr (3 / 2)
   \<and> map (spread_index (3 / 2)) [0, 1] = [0, 2]
   \<and> calculate_working_days 738886 738888 2 []
       \<lparr>working_days_per_week = Some 5, spread_days_evenly = Some True\<rparr>
     = Inr (2, True, [738886, 738888])
   \<and> eligible_days 738886 738894 []
       \<lparr>working_days_per_week = Some 5, spread_days_evenly = Some True\<rparr>
     = [738886, 738887, 738888, 738889, 738890, 738893, 738894]
   \<and> py_truediv 7 3 = Inr (5254199565265579 / 2251799813685248)
   \<and> map (spread_index (5254199565265579 / 2251799813685248)) [0, 1, 2] = [0, 2, 5]
   \<and> calculate_working_days 738886 738894 3 []
       \<lparr>working_days_per_week = Some 5, spread_days_evenly = Some True\<rparr>
     = Inr (3, True, [738886, 738888, 738893])"
proof -
  let ?st = "\<lparr>working_days_per_week = Some 5, spread_days_evenly = Some True\<rparr>"
  have E: "eligible_days 738886 738888 [] ?st = [738886, 738887, 738888]"
    "eligible_days 738886 738894 [] ?st
       = [738886, 738887, 738888, 738889, 738890, 738893, 738894]"
    by (simp_all add: calculator_eval upto_rec1)
  have div: "py_truediv 3 2 = Inr (3 / 2)"
    "py_truediv 7 3 = Inr (5254199565265579 / 2251799813685248)"
    by code_simp+
  have idx: "map (spread_index (3 / 2)) [0, 1] = [0, 2]"
    "map (spread_index (5254199565265579 / 2251799813685248)) [0, 1, 2] = [0, 2, 5]"
    by code_simp+
  have calc: "calculate_working_days 738886 738888 2 [] ?st = Inr (2, True, [738886, 738888])"
    "calculate_working_days 738886 738894 3 [] ?st
       = Inr (3, True, [738886, 738888, 738893])"
    by code_simp+
  have h: "(1 :: int) \<le> 738886" "(738888 :: int) < 3652059"
    "spread_days_evenly ?st = Some True" "(1 :: int) \<le> 2"
    "2 < int (length (eligible_days 738886 738888 [] ?st))"
    by (simp_all add: E)
  have h': "(1 :: int) \<le> 738886" "(738894 :: int) < 3652059"
    "spread_days_evenly ?st = Some True" "(1 :: int) \<le> 3"
    "3 < int (length (eligible_days 738886 738894 [] ?st))"
    by (simp_all add: E)
  from spread_days_distinct [OF h] spread_days_distinct [OF h'] E div idx calc
  show ?thesis by simp
qed

section \<open>Shortfalls and priority\<close>

lemma claim_days_count_mono:
  "claim_days nm required days al c = (al', c') \<Longrightarrow> c \<le> c'"
proof (induction nm required days al c rule: claim_days.induct)
  case (1 nm required al c)
  then show ?case by simp
next
  case (2 nm required day rest al c)
  then show ?case
    by (auto split: if_splits)
qed

lemma claim_days_exhausted:
  "claim_days nm required days al c = (al', c') \<Longrightarrow> c' < required
     \<Longrightarrow> \<forall>d \<in> set days. map_of al' d \<noteq> None"
proof (induction nm required days al c rule: claim_days.induct)
  case (1 nm required al c)
  then show ?case by simp
next
  case (2 nm required day rest al c)
  from "2.prems" claim_days_count_mono[OF "2.prems"(1)] have open_: "\<not> required \<le> c"
    by (auto split: if_splits)
  show ?case
  proof (cases "map_of al day = None")
    case True
    with open_ "2.prems"
    have rec: "claim_days nm required rest (AList.update day nm al) (c + 1) = (al', c')"
      by simp
    have "map_of (AList.update day nm al) day = Some nm"
      by (simp add: update_conv)
    from claim_days_keeps[OF rec this] have "map_of al' day \<noteq> None" by simp
    moreover from "2.IH"(1)[OF open_ True rec "2.prems"(2)]
    have "\<forall>d \<in> set rest. map_of al' d \<noteq> None" .
    ultimately show ?thesis by simp
  next
    case False
    with open_ "2.prems"
    have rec: "claim_days nm required rest al c = (al', c')"
      by simp
    from False obtain x where "map_of al day = Some x" by auto
    from claim_days_keeps[OF rec this] have "map_of al' day \<noteq> None" by simp
    moreover from "2.IH"(2)[OF open_ False rec "2.prems"(2)]
    have "\<forall>d \<in> set rest. map_of al' d \<noteq> None" .
    ultimately show ?thesis by simp
  qed
qed

lemma claim_days_none_free:
  "\<forall>d \<in> set days. map_of al d \<noteq> None \<Longrightarrow> claim_days nm required days al c = (al, c)"
  by (induction days) auto

lemma assign_loop_shortfalls:
  "assign_loop hol st ps (al, sfs) = Inr (al', sfs') \<Longrightarrow>
     \<exists>new. sfs' = sfs @ new \<and> sf_name ` set new \<subseteq> name ` set ps"
proof (induction ps arbitrary: al sfs)
  case Nil
  then show ?case by simp
next
  case (Cons p ps)
  from Cons.prems obtain al1 sfs1 where
    one: "assign_one hol st p (al, sfs) = Inr (al1, sfs1)"
    and rest: "assign_loop hol st ps (al1, sfs1) = Inr (al', sfs')"
    by (auto split: sum.splits)
  from one obtain c where "sfs1 = (if c < required_days p
             then sfs @ [\<lparr>sf_name = name p, assigned_days = c,
                          sf_required_days = required_days p\<rparr>]
             else sfs)"
    by (rule assign_one_cases)
  then obtain new1 where n1: "sfs1 = sfs @ new1" "sf_name ` set new1 \<subseteq> {name p}"
    by (cases "c < required_days p") auto
  from Cons.IH[OF rest] obtain new2 where
    n2: "sfs' = sfs1 @ new2" "sf_name ` set new2 \<subseteq> name ` set ps"
    by blast
  from n1 n2 have "sfs' = sfs @ (new1 @ new2)"
    "sf_name ` set (new1 @ new2) \<subseteq> name ` set (p # ps)"
    by auto
  then show ?case by blast
qed

lemma shortfall_count_skip:
  "nm \<notin> sf_name ` set xs \<Longrightarrow> shortfall_count nm (xs @ ys) = shortfall_count nm ys"
  by (induction xs) (auto simp: shortfall_count_def)

lemma shortfall_count_absent:
  "nm \<notin> sf_name ` set xs \<Longrightarrow> shortfall_count nm xs = 0"
  by (induction xs) (auto simp: shortfall_count_def)

lemma shortfall_count_nonneg_aux:
  "find (\<lambda>s. sf_name s = nm) xs = Some s \<Longrightarrow> s \<in> set xs"
  by (induction xs) (auto split: if_splits)

lemma sorted_split_two:
  assumes "sorted (map f xs)" "p \<in> set xs" "q \<in> set xs" "f p < (f q :: int)"
  shows "\<exists>as bs cs. xs = as @ p # bs @ q # cs"
proof -
  from assms(3) obtain us vs where xs: "xs = us @ q # vs"
    by (auto dest: split_list)
  have "p \<notin> set vs"
  proof
    assume "p \<in> set vs"
    with assms(1) have "f q \<le> f p"
      by (simp add: xs sorted_append)
    with assms(4) show False by simp
  qed
  moreover from assms(4) have "p \<noteq> q" by auto
  ultimately have "p \<in> set us" using assms(2) by (simp add: xs)
  then obtain as bs where "us = as @ p # bs"
    by (auto dest: split_list)
  with xs show ?thesis by auto
qed

lemma priority_keys_pairs:
  "priority_keys ps = Inr keyed \<Longrightarrow> \<forall>x \<in> set keyed. priority (snd x) = Some (fst x)"
  by (induction ps arbitrary: keyed) (auto split: option.splits sum.splits)

lemma sorted_by_priority_sorted:
  assumes "sorted_by_priority ps = Inr ordered"
  shows "sorted (map get_priority ordered)" and "mset ordered = mset ps"
proof -
  from assms obtain keyed where
    keyed: "priority_keys ps = Inr keyed" and
    ordered: "ordered = map snd (sort_key fst keyed)"
    by (auto simp: sorted_by_priority_def split: sum.splits)
  have "\<forall>x \<in> set (sort_key fst keyed). get_priority (snd x) = fst x"
    using priority_keys_pairs[OF keyed] by (simp add: get_priority_def)
  then have "map get_priority ordered = map fst (sort_key fst keyed)"
    by (simp add: ordered)
  then show "sorted (map get_priority ordered)"
    by (simp add: sorted_sort_key)
  have "mset ordered = image_mset snd (mset (sort_key fst keyed))"
    by (simp add: ordered)
  also have "\<dots> = image_mset snd (mset keyed)"
    by simp
  also have "\<dots> = mset (map snd keyed)" by simp
  also have "\<dots> = mset ps" by (simp only: priority_keys_snd[OF keyed])
  finally show "mset ordered = mset ps" .
qed


lemma shortfall_count_middle:
  assumes "nm \<notin> sf_name ` set xs" "nm \<notin> sf_name ` set zs"
  shows "shortfall_count nm
           (xs @ (if c < r then [\<lparr>sf_name = nm, assigned_days = c, sf_required_days = r\<rparr>]
                  else []) @ zs)
         = (if c < r then r - c else 0)"
proof (cases "c < r")
  case True
  then show ?thesis
    using assms(1) by (simp add: shortfall_count_skip) (simp add: shortfall_count_def)
next
  case False
  then show ?thesis
    using assms by (simp add: shortfall_count_skip shortfall_count_absent)
qed

lemma calculate_working_days_days_no_spread:
  assumes "calculate_working_days start end required hol st = Inr (cnt, suff, days)"
    and "\<not> get_spread_days_evenly st"
  shows "days = eligible_days start end hol st"
  using assms by (auto simp: calculate_working_days_unfold split: if_splits)

lemma eligible_days_subwindow:
  "start \<le> start' \<Longrightarrow> end' \<le> end \<Longrightarrow>
     set (eligible_days start' end' hol st) \<subseteq> set (eligible_days start end hol st)"
  by (auto simp: eligible_days_def)

lemma assign_one_record:
  assumes "assign_one hol st p (al, sfs) = Inr (al', sfs')"
    and "\<not> get_spread_days_evenly st"
  obtains c where
    "claim_days (name p) (required_days p)
       (eligible_days (start_date p) (end_date p) hol st) al 0 = (al', c)"
    "sfs' = sfs @ (if c < required_days p
                   then [\<lparr>sf_name = name p, assigned_days = c,
                           sf_required_days = required_days p\<rparr>]
                   else [])"
proof -
  from assms(1) obtain cnt suff days c where
    calc: "calculate_working_days (start_date p) (end_date p) (required_days p) hol st
       = Inr (cnt, suff, days)"
    and claim: "claim_days (name p) (required_days p) days al 0 = (al', c)"
    and rec: "sfs' = (if c < required_days p
             then sfs @ [\<lparr>sf_name = name p, assigned_days = c,
                          sf_required_days = required_days p\<rparr>]
             else sfs)"
    by (rule assign_one_cases)
  from calculate_working_days_days_no_spread[OF calc assms(2)] claim
  have "claim_days (name p) (required_days p)
       (eligible_days (start_date p) (end_date p) hol st) al 0 = (al', c)"
    by simp
  moreover from rec have "sfs' = sfs @ (if c < required_days p
                   then [\<lparr>sf_name = name p, assigned_days = c,
                           sf_required_days = required_days p\<rparr>]
                   else [])"
    by simp
  ultimately show ?thesis by (rule that)
qed


text \<open>
  Claim C7, as stated, fails. Three runs, all on the week of 2024-01-01 (Monday is
  738886) with a five-day week; in each the windows of the two projects overlap and the
  days required together exceed the eligible days, and the project of higher priority
  ends with the larger shortfall.
  \<^item> A (priority 1) and B (priority 2) on the same window, Monday alone; A requires 3
    days and B 1. A takes Monday and lacks 2; B lacks 1.
  \<^item> A (priority 1) on Monday alone, B (priority 2) on Monday to Wednesday, 2 days
    required each. A takes Monday and lacks 1; B takes Tuesday and Wednesday.
  \<^item> With \<open>spread_days_evenly\<close>: X (priority 1, 2 days required) and P (priority 2)
    on Monday to Friday, Q (priority 3) on Tuesday to Friday, P and Q requiring 3 days
    each. X picks Monday and Wednesday; P picks Monday, Wednesday and Thursday, gets
    Thursday and lacks 2; Q picks Tuesday, Wednesday and Friday, gets two and lacks 1.
\<close>

theorem priority_precedence_counterexample:
  "assign_project_dates
      \<lparr>projects = [\<lparr>name = ''A'', priority = Some 1, start_date = 738886,
                     end_date = 738886, required_days = 3\<rparr>,
                   \<lparr>name = ''B'', priority = Some 2, start_date = 738886,
                     end_date = 738886, required_days = 1\<rparr>],
       holidays = [],
       settings = \<lparr>working_days_per_week = Some 5, spread_days_evenly = Some False\<rparr>\<rparr>
     = Inr ([(738886, ''A'')],
            [\<lparr>sf_name = ''A'', assigned_days = 1, sf_required_days = 3\<rparr>,
             \<lparr>sf_name = ''B'', assigned_days = 0, sf_required_days = 1\<rparr>])
   \<and> shortfall_count ''A''
         [\<lparr>sf_name = ''A'', assigned_days = 1, sf_required_days = 3\<rparr>,
          \<lparr>sf_name = ''B'', assigned_days = 0, sf_required_days = 1\<rparr>] = 2
   \<and> shortfall_count ''B''
         [\<lparr>sf_name = ''A'', assigned_days = 1, sf_required_days = 3\<rparr>,
          \<lparr>sf_name = ''B'', assigned_days = 0, sf_required_days = 1\<rparr>] = 1
   \<and> assign_project_dates
      \<lparr>projects = [\<lparr>name = ''A'', priority = Some 1, start_date = 738886,
                     end_date = 738886, required_days = 2\<rparr>,
                   \<lparr>name = ''B'', priority = Some 2, start_date = 738886,
                     end_date = 738888, required_days = 2\<rparr>],
       holidays = [],
       settings = \<lparr>working_days_per_week = Some 5, spread_days_evenly = Some False\<rparr>\<rparr>
     = Inr ([(738886, ''A''), (738887, ''B''), (738888, ''B'')],
            [\<lparr>sf_name = ''A'', assigned_days = 1, sf_required_days = 2\<rparr>])
   \<and> shortfall_count ''A''
         [\<lparr>sf_name = ''A'', assigned_days = 1, sf_required_days = 2\<rparr>] = 1
   \<and> shortfall_count ''B''
         [\<lparr>sf_name = ''A'', assigned_days = 1, sf_required_days = 2\<rparr>] = 0
   \<and> assign_project_dates
      \<lparr>projects = [\<lparr>name = ''X'', priority = Some 1, start_date = 738886,
                     end_date = 738890, required_days = 2\<rparr>,
                   \<lparr>name = ''P'', priority = Some 2, start_date = 738886,
                     end_date = 738890, required_days = 3\<rparr>,
                   \<lparr>name = ''Q'', priority = Some 3, start_date = 738887,
                     end_date = 738890, required_days = 3\<rparr>],
       holidays = [],
       settings = \<lparr>working_days_per_week = Some 5, spread_days_evenly = Some True\<rparr>\<rparr>
     = Inr ([(738886, ''X''), (738888, ''X''), (738889, ''P''), (738887, ''Q''),
             (738890, ''Q'')],
            [\<lparr>sf_name = ''P'', assigned_days = 1, sf_required_days = 3\<rparr>,
             \<lparr>sf_name = ''Q'', assigned_days = 2, sf_required_days = 3\<rparr>])
   \<and> shortfall_count ''P''
         [\<lparr>sf_name = ''P'', assigned_days = 1, sf_required_days = 3\<rparr>,
          \<lparr>sf_name = ''Q'', assigned_days = 2, sf_required_days = 3\<rparr>] = 2
   \<and> shortfall_count ''Q''
         [\<lparr>sf_name = ''P'', assigned_days = 1, sf_required_days = 3\<rparr>,
          \<lparr>sf_name = ''Q'', assigned_days = 2, sf_required_days = 3\<rparr>] = 1"
proof (intro conjI)
  show "assign_project_dates
      \<lparr>projects = [\<lparr>name = ''A'', priority = Some 1, start_date = 738886,
                     end_date = 738886, required_days = 3\<rparr>,
                   \<lparr>name = ''B'', priority = Some 2, start_date = 738886,
                     end_date = 738886, required_days = 1\<rparr>],
       holidays = [],
       settings = \<lparr>working_days_per_week = Some 5, spread_days_evenly = Some False\<rparr>\<rparr>
     = Inr ([(738886, ''A'')],
            [\<lparr>sf_name = ''A'', assigned_days = 1, sf_required_days = 3\<rparr>,
             \<lparr>sf_name = ''B'', assigned_days = 0, sf_required_days = 1\<rparr>])"
    by (simp add: engine_eval calculator_eval)
  show "assign_project_dates
      \<lparr>projects = [\<lparr>name = ''A'', priority = Some 1, start_date = 738886,
                     end_date = 738886, required_days = 2\<rparr>,
                   \<lparr>name = ''B'', priority = Some 2, start_date = 738886,
                     end_date = 738888, required_days = 2\<rparr>],
       holidays = [],
       settings = \<lparr>working_days_per_week = Some 5, spread_days_evenly = Some False\<rparr>\<rparr>
     = Inr ([(738886, ''A''), (738887, ''B''), (738888, ''B'')],
            [\<lparr>sf_name = ''A'', assigned_days = 1, sf_required_days = 2\<rparr>])"
    by (simp add: engine_eval calculator_eval)
  show "assign_project_dates
      \<lparr>projects = [\<lparr>name = ''X'', priority = Some 1, start_date = 738886,
                     end_date = 738890, required_days = 2\<rparr>,
                   \<lparr>name = ''P'', priority = Some 2, start_date = 738886,
                     end_date = 738890, required_days = 3\<rparr>,
                   \<lparr>name = ''Q'', priority = Some 3, start_date = 738887,
                     end_date = 738890, required_days = 3\<rparr>],
       holidays = [],
       settings = \<lparr>working_days_per_week = Some 5, spread_days_evenly = Some True\<rparr>\<rparr>
     = Inr ([(738886, ''X''), (738888, ''X''), (738889, ''P''), (738887, ''Q''),
             (738890, ''Q'')],
            [\<lparr>sf_name = ''P'', assigned_days = 1, sf_required_days = 3\<rparr>,
             \<lparr>sf_name = ''Q'', assigned_days = 2, sf_required_days = 3\<rparr>])"
    by code_simp
qed (simp_all add: shortfall_count_def)

text \<open>
  Claim C7, amended. In every run that returns a result, with \<open>spread_days_evenly\<close> false
  or absent and the project names unique: of two projects such that the window of the one
  of lower priority lies within the window of the one of higher priority (lower priority
  number), and the one of higher priority requires no more days than the other, the
  shortfall count (\<open>required_days\<close> minus \<open>assigned_days\<close>) of the project of higher
  priority is at most that of the project of lower priority.
\<close>

theorem priority_precedence:
  assumes run: "assign_project_dates cfg = Inr (al, sfs)"
    and members: "p \<in> set (projects cfg)" "q \<in> set (projects cfg)"
    and prio: "priority p = Some a" "priority q = Some b" "a < b"
    and names: "distinct (map name (projects cfg))"
    and spread: "spread_days_evenly (settings cfg) \<noteq> Some True"
    and window: "start_date p \<le> start_date q" "end_date q \<le> end_date p"
    and required: "required_days p \<le> required_days q"
  shows "shortfall_count (name p) sfs \<le> shortfall_count (name q) sfs"
proof -
  let ?hol = "holidays cfg" and ?st = "settings cfg"
  let ?Ep = "eligible_days (start_date p) (end_date p) ?hol ?st"
  let ?Eq = "eligible_days (start_date q) (end_date q) ?hol ?st"
  from spread have off: "\<not> get_spread_days_evenly ?st"
    by (auto simp: get_spread_days_evenly_def split: option.splits)
  from run obtain ordered where
    ord: "sorted_by_priority (projects cfg) = Inr ordered"
    and loop: "assign_loop ?hol ?st ordered ([], []) = Inr (al, sfs)"
    by (rule assign_project_dates_cases)
  note so = sorted_by_priority_sorted[OF ord]
  from prio have "get_priority p < get_priority q"
    by (simp add: get_priority_def)
  moreover from members sorted_by_priority_set[OF ord]
  have "p \<in> set ordered" "q \<in> set ordered" by simp_all
  ultimately obtain as bs cs where dec: "ordered = as @ p # bs @ q # cs"
    using sorted_split_two[OF so(1)] by blast
  have "image_mset name (mset ordered) = image_mset name (mset (projects cfg))"
    by (simp only: so(2))
  then have "mset (map name ordered) = mset (map name (projects cfg))"
    by (simp only: mset_map)
  from mset_eq_imp_distinct_iff[OF this] names have "distinct (map name ordered)"
    by (simp only:)
  then have nm: "name p \<notin> name ` set as" "name p \<notin> name ` set bs"
    "name p \<notin> name ` set cs" "name p \<noteq> name q"
    "name q \<notin> name ` set as" "name q \<notin> name ` set bs" "name q \<notin> name ` set cs"
    by (auto simp: dec)
  from loop obtain al0 sfs0 al1 sfs1 al2 sfs2 al3 sfs3 where
    s0: "assign_loop ?hol ?st as ([], []) = Inr (al0, sfs0)"
    and s1: "assign_one ?hol ?st p (al0, sfs0) = Inr (al1, sfs1)"
    and s2: "assign_loop ?hol ?st bs (al1, sfs1) = Inr (al2, sfs2)"
    and s3: "assign_one ?hol ?st q (al2, sfs2) = Inr (al3, sfs3)"
    and s4: "assign_loop ?hol ?st cs (al3, sfs3) = Inr (al, sfs)"
    by (auto simp: dec assign_loop_append split: sum.splits)
  from assign_loop_shortfalls[OF s0] obtain n0 where
    n0: "sfs0 = n0" "sf_name ` set n0 \<subseteq> name ` set as"
    by auto
  from s1 off obtain cp where
    cp: "claim_days (name p) (required_days p) ?Ep al0 0 = (al1, cp)"
    and rp: "sfs1 = sfs0 @ (if cp < required_days p
                   then [\<lparr>sf_name = name p, assigned_days = cp,
                           sf_required_days = required_days p\<rparr>]
                   else [])"
    by (rule assign_one_record)
  from assign_loop_shortfalls[OF s2] obtain n2 where
    n2: "sfs2 = sfs1 @ n2" "sf_name ` set n2 \<subseteq> name ` set bs"
    by auto
  from s3 off obtain cq where
    cq: "claim_days (name q) (required_days q) ?Eq al2 0 = (al3, cq)"
    and rq: "sfs3 = sfs2 @ (if cq < required_days q
                   then [\<lparr>sf_name = name q, assigned_days = cq,
                           sf_required_days = required_days q\<rparr>]
                   else [])"
    by (rule assign_one_record)
  from assign_loop_shortfalls[OF s4] obtain n4 where
    n4: "sfs = sfs3 @ n4" "sf_name ` set n4 \<subseteq> name ` set cs"
    by auto
  let ?rp = "if cp < required_days p
             then [\<lparr>sf_name = name p, assigned_days = cp,
                     sf_required_days = required_days p\<rparr>]
             else []"
  let ?rq = "if cq < required_days q
             then [\<lparr>sf_name = name q, assigned_days = cq,
                     sf_required_days = required_days q\<rparr>]
             else []"
  have all: "sfs = n0 @ ?rp @ n2 @ ?rq @ n4"
    by (simp only: n4(1) rq n2(1) rp n0(1) append_assoc)
  have count_p: "shortfall_count (name p) sfs
      = (if cp < required_days p then required_days p - cp else 0)"
  proof -
    have "name p \<notin> sf_name ` set n0" using n0(2) nm(1) by auto
    moreover have "name p \<notin> sf_name ` set (n2 @ ?rq @ n4)"
      using n2(2) n4(2) nm(2,3,4) by auto
    ultimately show ?thesis
      unfolding all by (rule shortfall_count_middle)
  qed
  have count_q: "shortfall_count (name q) sfs
      = (if cq < required_days q then required_days q - cq else 0)"
  proof -
    have "name q \<notin> sf_name ` set (n0 @ ?rp @ n2)"
      using n0(2) n2(2) nm(4,5,6) by auto
    moreover have "name q \<notin> sf_name ` set n4" using n4(2) nm(7) by auto
    ultimately have "shortfall_count (name q) ((n0 @ ?rp @ n2) @ ?rq @ n4)
      = (if cq < required_days q then required_days q - cq else 0)"
      by (rule shortfall_count_middle)
    then show ?thesis by (simp only: all append_assoc)
  qed
  from claim_days_count_mono[OF cp] have cp0: "0 \<le> cp" .
  show ?thesis
  proof (cases "cp < required_days p")
    case False
    then show ?thesis by (simp add: count_p count_q)
  next
    case True
    from claim_days_exhausted[OF cp True]
    have "\<forall>d \<in> set ?Ep. map_of al1 d \<noteq> None" .
    then have "\<forall>d \<in> set ?Ep. map_of al2 d \<noteq> None"
      using assign_loop_keeps[OF s2] by fastforce
    moreover have "set ?Eq \<subseteq> set ?Ep"
      using window by (rule eligible_days_subwindow)
    ultimately have "\<forall>d \<in> set ?Eq. map_of al2 d \<noteq> None" by blast
    from claim_days_none_free[OF this, of "name q" "required_days q" 0] cq
    have "cq = 0" by simp
    with True cp0 required show ?thesis
      by (simp add: count_p count_q)
  qed
qed

theorem priority_precedence_witness:
  "assign_project_dates
      \<lparr>projects = [\<lparr>name = ''B'', priority = Some 2, start_date = 738887,
                     end_date = 738889, required_days = 4\<rparr>,
                   \<lparr>name = ''A'', priority = Some 1, start_date = 738886,
                     end_date = 738890, required_days = 4\<rparr>],
       holidays = [738888],
       settings = \<lparr>working_days_per_week = None, spread_days_evenly = None\<rparr>\<rparr>
     = Inr ([(738886, ''A''), (738887, ''A''), (738889, ''A''), (738890, ''A'')],
            [\<lparr>sf_name = ''B'', assigned_days = 0, sf_required_days = 4\<rparr>])
   \<and> shortfall_count ''A''
         [\<lparr>sf_name = ''B'', assigned_days = 0, sf_required_days = 4\<rparr>] = 0
   \<and> shortfall_count ''B''
         [\<lparr>sf_name = ''B'', assigned_days = 0, sf_required_days = 4\<rparr>] = 4
   \<and> shortfall_count ''A'' [\<lparr>sf_name = ''B'', assigned_days = 0, sf_required_days = 4\<rparr>]
       \<le> shortfall_count ''B'' [\<lparr>sf_name = ''B'', assigned_days = 0, sf_required_days = 4\<rparr>]"
proof -
  let ?A = "\<lparr>name = ''A'', priority = Some 1, start_date = 738886,
                     end_date = 738890, required_days = 4\<rparr>"
  let ?B = "\<lparr>name = ''B'', priority = Some 2, start_date = 738887,
                     end_date = 738889, required_days = 4\<rparr>"
  let ?cfg = "\<lparr>projects = [?B, ?A], holidays = [738888],
       settings = \<lparr>working_days_per_week = None, spread_days_evenly = None\<rparr>\<rparr>"
  let ?sfs = "[\<lparr>sf_name = ''B'', assigned_days = 0, sf_required_days = 4\<rparr>]"
  have run: "assign_project_dates ?cfg
     = Inr ([(738886, ''A''), (738887, ''A''), (738889, ''A''), (738890, ''A'')], ?sfs)"
    by (simp add: engine_eval calculator_eval)
  have le: "shortfall_count (name ?A) ?sfs \<le> shortfall_count (name ?B) ?sfs"
    by (rule priority_precedence [OF run, of ?A ?B 1 2]) simp_all
  with run show ?thesis
    by (simp add: shortfall_count_def)
qed

end
